theory Spec2Isabelle
  imports Main "HOL-Library.Word"
begin

section \<open>The kernel interface seen by \<^verbatim>\<open>VirtualTerminal.cpp\<close>\<close>

text \<open>
  The file \<^verbatim>\<open>src/common/VirtualTerminal.cpp\<close> drives the Linux VT subsystem through
  \<^verbatim>\<open>open\<close>, \<^verbatim>\<open>close\<close>, \<^verbatim>\<open>write\<close>, \<^verbatim>\<open>ioctl\<close> and \<^verbatim>\<open>signal\<close>. The kernel is
  not part of the repository, so every function below takes the kernel as a parameter: a
  state machine that answers each call with a reply and a new kernel state. The program's own
  state is the kernel state, the C variable \<^verbatim>\<open>errno\<close>, and the list of everything it has
  done so far (calls with their replies, and log lines), oldest first.

  C \<^verbatim>\<open>int\<close> values are modelled as \<open>int\<close>: the code only compares and passes them on (the
  single subtraction is \<^verbatim>\<open>SIGRTMAX - 1\<close>), so no wrap-around can occur. The fields of the
  two kernel structs keep their widths.
\<close>

text \<open>\<^verbatim>\<open>struct vt_mode\<close> and \<^verbatim>\<open>struct vt_stat\<close> of \<^verbatim>\<open><linux/vt.h>\<close>.\<close>

record vt_mode =
  mode :: "8 word"
  waitv :: "8 word"
  relsig :: "16 word"
  acqsig :: "16 word"
  frsig :: "16 word"

record vt_stat =
  v_active :: "16 word"
  v_signal :: "16 word"
  v_state :: "16 word"

text \<open>The C initialiser \<^verbatim>\<open>= { 0 }\<close>.\<close>

definition zero_vt_mode :: vt_mode where
  "zero_vt_mode = \<lparr>mode = 0, waitv = 0, relsig = 0, acqsig = 0, frsig = 0\<rparr>"

definition zero_vt_stat :: vt_stat where
  "zero_vt_stat = \<lparr>v_active = 0, v_signal = 0, v_state = 0\<rparr>"

text \<open>
  Constants of \<^verbatim>\<open><linux/vt.h>\<close>, \<^verbatim>\<open><linux/kd.h>\<close>, \<^verbatim>\<open><errno.h>\<close> and \<^verbatim>\<open><signal.h>\<close>
  with their Linux values; \<^verbatim>\<open>SIGRTMAX\<close> is 64 with glibc. The two macros at the top of the
  source file follow.
\<close>

definition VT_AUTO :: "8 word" where "VT_AUTO = 0"
definition VT_PROCESS :: "8 word" where "VT_PROCESS = 1"
definition VT_ACKACQ :: int where "VT_ACKACQ = 2"
definition KD_TEXT :: int where "KD_TEXT = 0"
definition KD_GRAPHICS :: int where "KD_GRAPHICS = 1"
definition EINTR :: int where "EINTR = 4"
definition SIGRTMAX :: int where "SIGRTMAX = 64"

definition RELEASE_DISPLAY_SIGNAL :: int where
  "RELEASE_DISPLAY_SIGNAL = SIGRTMAX"

definition ACQUIRE_DISPLAY_SIGNAL :: int where
  "ACQUIRE_DISPLAY_SIGNAL = SIGRTMAX - 1"

text \<open>
  The two signal handlers of the file, as the values passed to \<^verbatim>\<open>signal\<close>. The kernel
  runs them asynchronously; what they do when they run is outside the sequential functions
  modelled here.
\<close>

datatype handler = onAcquireDisplay | onReleaseDisplay

text \<open>The \<^verbatim>\<open>ioctl\<close> requests the file issues, each with its by-value argument.\<close>

datatype request =
    VT_SETMODE vt_mode
  | VT_GETMODE
  | KDGETMODE
  | KDSETMODE int
  | VT_GETSTATE
  | VT_OPENQRY
  | VT_ACTIVATE int
  | VT_WAITACTIVE int
  | VT_RELDISP int

text \<open>
  The calls. \<open>Open\<close> is always made with \<^verbatim>\<open>O_RDWR | O_NOCTTY\<close>; \<open>Write\<close> carries the
  descriptor, the buffer and the byte count.
\<close>

datatype syscall =
    Open string
  | Close int
  | Write int string nat
  | Ioctl int request
  | Signal int handler

text \<open>
  What a call stores through its pointer argument, if anything. \<open>NoOut\<close> leaves the
  caller's variable as it was.
\<close>

datatype outbuf = NoOut | OutInt int | OutMode vt_mode | OutStat vt_stat

text \<open>
  A reply: the return value, the error number the kernel reports when the return value is
  negative, and the out-parameter.
\<close>

record reply =
  r_ret :: int
  r_errno :: int
  r_out :: outbuf

text \<open>
  The log lines of the file, one constructor per message, with the values the message is
  formatted from (\<^verbatim>\<open>strerror(errno)\<close> is represented by the error number).
\<close>

datatype msg =
    FailedManageVtManually int       \<comment> \<open>"Failed to manage VT manually:"\<close>
  | FailedQueryVtMode int            \<comment> \<open>"Failed to query VT mode:"\<close>
  | FailedQueryDisplayMode int       \<comment> \<open>"Failed to query kernel display mode:"\<close>
  | FailedSetTextMode int            \<comment> \<open>"Failed to set text mode for current VT: %s"\<close>
  | FailedSetUpVtMode                \<comment> \<open>"Failed to set up VT mode"\<close>
  | VtModeFixed                      \<comment> \<open>"VT mode fixed"\<close>
  | VtModeNotNeeded                  \<comment> \<open>"VT mode didn't need to be fixed"\<close>
  | FailedOpenVtMaster int           \<comment> \<open>"Failed to open VT master:"\<close>
  | FailedGetCurrentVt int           \<comment> \<open>"Failed to get current VT:"\<close>
  | FailedOpenNewVt int              \<comment> \<open>"Failed to open new VT:"\<close>
  | NewVtNotValid int int            \<comment> \<open>"New VT" vt "is not valid, fall back to" active\<close>
  | JumpingToVt int                  \<comment> \<open>"Jumping to VT" vt\<close>
  | FailedSetGraphicsMode int int    \<comment> \<open>"Failed to set graphics mode for VT %d: %s"\<close>
  | FailedOpenTty string int         \<comment> \<open>"Failed to open %s: %s"\<close>
  | UsingTty0Instead string          \<comment> \<open>"Using /dev/tty0 instead of %s!"\<close>
  | CouldntInitiateJump int int      \<comment> \<open>"Couldn't initiate jump to VT %d: %s"\<close>
  | CouldntFinalizeJump int int      \<comment> \<open>"Couldn't finalize jump to VT %d: %s"\<close>

datatype severity = Debug | Warning | Critical

datatype event = Call syscall reply | Log severity msg

record 'k world =
  kern :: 'k
  errno :: int
  trace :: "event list"

type_synonym 'k kernel = "'k \<Rightarrow> syscall \<Rightarrow> reply \<times> 'k"

text \<open>
  One call: the kernel answers, the call and its reply are appended to the trace, and
  \<^verbatim>\<open>errno\<close> is set when (and only when) the call fails.
\<close>

definition sys :: "'k kernel \<Rightarrow> syscall \<Rightarrow> 'k world \<Rightarrow> reply \<times> 'k world" where
  "sys K c w =
     (let (r, k') = K (kern w) c
      in (r, w\<lparr>kern := k',
                errno := (if r_ret r < 0 then r_errno r else errno w),
                trace := trace w @ [Call c r]\<rparr>))"

definition qDebug :: "msg \<Rightarrow> 'k world \<Rightarrow> 'k world" where
  "qDebug m w = w\<lparr>trace := trace w @ [Log Debug m]\<rparr>"

definition qWarning :: "msg \<Rightarrow> 'k world \<Rightarrow> 'k world" where
  "qWarning m w = w\<lparr>trace := trace w @ [Log Warning m]\<rparr>"

definition qCritical :: "msg \<Rightarrow> 'k world \<Rightarrow> 'k world" where
  "qCritical m w = w\<lparr>trace := trace w @ [Log Critical m]\<rparr>"

text \<open>Reading the variable a call was given a pointer to: initial value, or what was stored.\<close>

definition int_after :: "int \<Rightarrow> reply \<Rightarrow> int" where
  "int_after v r = (case r_out r of OutInt x \<Rightarrow> x | _ \<Rightarrow> v)"

definition mode_after :: "vt_mode \<Rightarrow> reply \<Rightarrow> vt_mode" where
  "mode_after v r = (case r_out r of OutMode x \<Rightarrow> x | _ \<Rightarrow> v)"

definition stat_after :: "vt_stat \<Rightarrow> reply \<Rightarrow> vt_stat" where
  "stat_after v r = (case r_out r of OutStat x \<Rightarrow> x | _ \<Rightarrow> v)"

section \<open>Discovery and allocation\<close>

text \<open>
  \<^verbatim>\<open>fetchAvailableVt\<close> (the spec's \<^verbatim>\<open>fetchActiveOrAllocate\<close>). The scope guard closes
  \<^verbatim>\<open>fd\<close> on each of the three returns after it is set up.
\<close>

definition fetchAvailableVt :: "'k kernel \<Rightarrow> 'k world \<Rightarrow> int \<times> 'k world" where
  "fetchAvailableVt K w =
     (let (ro, w1) = sys K (Open ''/dev/tty0'') w;
          fd = r_ret ro
      in if fd < 0 then (- 1, qCritical (FailedOpenVtMaster (errno w1)) w1)
         else
           let (rs, w2) = sys K (Ioctl fd VT_GETSTATE) w1;
               vtState = stat_after zero_vt_stat rs
           in if r_ret rs < 0 then
                let w3 = qCritical (FailedGetCurrentVt (errno w2)) w2;
                    (rq, w4) = sys K (Ioctl fd VT_OPENQRY) w3;
                    vt = int_after 0 rq
                in if r_ret rq < 0 then
                     let w5 = qCritical (FailedOpenNewVt (errno w4)) w4
                     in (- 1, snd (sys K (Close fd) w5))
                   else (vt, snd (sys K (Close fd) w4))
              else (uint (v_active vtState), snd (sys K (Close fd) w2)))"

text \<open>\<^verbatim>\<open>setUpNewVt\<close> (the spec's \<^verbatim>\<open>allocateNew\<close>).\<close>

definition setUpNewVt :: "'k kernel \<Rightarrow> 'k world \<Rightarrow> int \<times> 'k world" where
  "setUpNewVt K w =
     (let (ro, w1) = sys K (Open ''/dev/tty0'') w;
          fd = r_ret ro
      in if fd < 0 then (- 1, qCritical (FailedOpenVtMaster (errno w1)) w1)
         else
           let (rq, w2) = sys K (Ioctl fd VT_OPENQRY) w1;
               vt = int_after 0 rq
           in if r_ret rq < 0 then
                let w3 = qCritical (FailedOpenNewVt (errno w2)) w2
                in (- 1, snd (sys K (Close fd) w3))
              else if vt \<le> 0 then
                let (rs, w3) = sys K (Ioctl fd VT_GETSTATE) w2;
                    vtState = stat_after zero_vt_stat rs
                in if r_ret rs < 0 then
                     let w4 = qCritical (FailedGetCurrentVt (errno w3)) w3
                     in (- 1, snd (sys K (Close fd) w4))
                   else
                     let w4 = qWarning (NewVtNotValid vt (uint (v_active vtState))) w3
                     in (uint (v_active vtState), snd (sys K (Close fd) w4))
              else (vt, snd (sys K (Close fd) w2)))"

section \<open>Handshake and mode repair\<close>

text \<open>
  \<^verbatim>\<open>handleVtSwitches\<close>: asks for process-driven switching with the two signal numbers
  and registers the two handlers. The handlers are registered whether or not the mode
  request succeeded; the result says whether it did.
\<close>

definition setModeRequest :: vt_mode where
  "setModeRequest =
     zero_vt_mode\<lparr>mode := VT_PROCESS,
                  relsig := word_of_int RELEASE_DISPLAY_SIGNAL,
                  acqsig := word_of_int ACQUIRE_DISPLAY_SIGNAL\<rparr>"

definition handleVtSwitches :: "'k kernel \<Rightarrow> int \<Rightarrow> 'k world \<Rightarrow> bool \<times> 'k world" where
  "handleVtSwitches K fd w =
     (let (rm, w1) = sys K (Ioctl fd (VT_SETMODE setModeRequest)) w;
          (ok, w2) = (if r_ret rm < 0
                      then (False, qDebug (FailedManageVtManually (errno w1)) w1)
                      else (True, w1));
          w3 = snd (sys K (Signal RELEASE_DISPLAY_SIGNAL onReleaseDisplay) w2);
          w4 = snd (sys K (Signal ACQUIRE_DISPLAY_SIGNAL onAcquireDisplay) w3)
      in (ok, w4))"

text \<open>The code after the label \<^verbatim>\<open>out:\<close> of \<^verbatim>\<open>fixVtMode\<close>.\<close>

definition fixVtMode_out :: "bool \<Rightarrow> bool \<Rightarrow> 'k world \<Rightarrow> 'k world" where
  "fixVtMode_out ok modeFixed w =
     (if \<not> ok then qCritical FailedSetUpVtMode w
      else if modeFixed then qDebug VtModeFixed w
      else qDebug VtModeNotNeeded w)"

text \<open>
  \<^verbatim>\<open>fixVtMode\<close> (the spec's Mode Repair). A failed query clears \<^verbatim>\<open>ok\<close> and execution
  goes on to the test that follows, on the variable as the call left it. In the last branch
  \<^verbatim>\<open>ok\<close> is assigned the result of \<^verbatim>\<open>handleVtSwitches\<close>.
\<close>

definition fixVtMode :: "'k kernel \<Rightarrow> int \<Rightarrow> bool \<Rightarrow> 'k world \<Rightarrow> 'k world" where
  "fixVtMode K fd vt_auto w =
     (let (rm, w1) = sys K (Ioctl fd VT_GETMODE) w;
          getmodeReply = mode_after zero_vt_mode rm;
          (ok1, w2) = (if r_ret rm < 0
                       then (False, qWarning (FailedQueryVtMode (errno w1)) w1)
                       else (True, w1))
      in if mode getmodeReply \<noteq> VT_AUTO then fixVtMode_out ok1 False w2
         else
           let (rd, w3) = sys K (Ioctl fd KDGETMODE) w2;
               kernelDisplayMode = int_after 0 rd;
               (ok2, w4) = (if r_ret rd < 0
                            then (False, qWarning (FailedQueryDisplayMode (errno w3)) w3)
                            else (ok1, w3))
           in if kernelDisplayMode = KD_TEXT then fixVtMode_out ok2 False w4
              else if vt_auto then
                let (rt, w5) = sys K (Ioctl fd (KDSETMODE KD_TEXT)) w4;
                    (ok3, w6) = (if r_ret rt < 0
                                 then (False, qWarning (FailedSetTextMode (errno w5)) w5)
                                 else (ok2, w5))
                in fixVtMode_out ok3 False w6
              else
                let (ok3, w5) = handleVtSwitches K fd w4
                in fixVtMode_out ok3 True w5)"

section \<open>Switching\<close>

text \<open>\<^verbatim>\<open>QString::arg(int)\<close>: the decimal numeral of an integer.\<close>

definition digit_char :: "nat \<Rightarrow> char" where
  "digit_char d = char_of (48 + d)"

fun digits_of :: "nat \<Rightarrow> string" where
  "digits_of n =
     (if n < 10 then [digit_char n] else digits_of (n div 10) @ [digit_char (n mod 10)])"

declare digits_of.simps [simp del]

definition show_int :: "int \<Rightarrow> string" where
  "show_int i = (if i < 0 then CHR ''-'' # digits_of (nat (- i)) else digits_of (nat i))"

text \<open>
  \<^verbatim>\<open>"\33[H\33[2J"\<close>, and the byte count \<^verbatim>\<open>sizeof(clearEscapeSequence)\<close>, the size of a
  pointer (8 on a 64-bit system).
\<close>

definition clearEscapeSequence :: string where
  "clearEscapeSequence =
     [char_of (27::nat), CHR ''['', CHR ''H'', char_of (27::nat), CHR ''['', CHR ''2'', CHR ''J'']"

definition sizeof_pointer :: nat where
  "sizeof_pointer = 8"

text \<open>
  The local variables of \<^verbatim>\<open>jumpToVt\<close> that are live when its loop starts.
\<close>

record jump_vars =
  activeVtFd :: int
  vtFd :: int
  fd :: int

text \<open>
  \<^verbatim>\<open>jumpToVt\<close> up to the comment before the handshake: both opens (neither result is
  tested before the second open; only \<^verbatim>\<open>vtFd\<close> is tested afterwards), then either the
  clear and graphics-mode calls on the target and \<^verbatim>\<open>fixVtMode\<close> on the master handle, or
  the fallback to the master handle.
\<close>

definition jumpToVt_open ::
  "'k kernel \<Rightarrow> int \<Rightarrow> bool \<Rightarrow> 'k world \<Rightarrow> jump_vars \<times> 'k world" where
  "jumpToVt_open K vt vt_auto w =
     (let w0 = qDebug (JumpingToVt vt) w;
          (ra, w1) = sys K (Open ''/dev/tty0'') w0;
          ttyString = ''/dev/tty'' @ show_int vt;
          (rv, w2) = sys K (Open ttyString) w1
      in if r_ret rv \<noteq> - 1 then
           let w2a = snd (sys K (Write (r_ret rv) clearEscapeSequence sizeof_pointer) w2);
               (rg, w2b) = sys K (Ioctl (r_ret rv) (KDSETMODE KD_GRAPHICS)) w2a;
               w2c = (if r_ret rg < 0
                      then qWarning (FailedSetGraphicsMode vt (errno w2b)) w2b
                      else w2b)
           in (\<lparr>activeVtFd = r_ret ra, vtFd = r_ret rv, fd = r_ret rv\<rparr>,
               fixVtMode K (r_ret ra) vt_auto w2c)
         else
           let w2a = qWarning (FailedOpenTty ttyString (errno w2)) w2
           in (\<lparr>activeVtFd = r_ret ra, vtFd = r_ret rv, fd = r_ret ra\<rparr>,
               qDebug (UsingTty0Instead ttyString) w2a))"

text \<open>
  One pass through the body of the \<^verbatim>\<open>do ... while (errno == EINTR)\<close> loop. The result
  says whether the loop goes round again: \<^verbatim>\<open>continue\<close> jumps to the loop condition, which
  then holds; \<^verbatim>\<open>break\<close> leaves the loop.
\<close>

definition jump_body :: "'k kernel \<Rightarrow> int \<Rightarrow> int \<Rightarrow> 'k world \<Rightarrow> bool \<times> 'k world" where
  "jump_body K f vt w =
     (let w0 = w\<lparr>errno := 0\<rparr>;
          (ra, w1) = sys K (Ioctl f (VT_ACTIVATE vt)) w0
      in if r_ret ra < 0 then
           (if errno w1 = EINTR then (errno w1 = EINTR, w1)
            else (False, qWarning (CouldntInitiateJump vt (errno w1)) w1))
         else
           let (rw, w2) = sys K (Ioctl f (VT_WAITACTIVE vt)) w1;
               w3 = (if r_ret rw < 0 \<and> errno w2 \<noteq> EINTR
                     then qWarning (CouldntFinalizeJump vt (errno w2)) w2
                     else w2)
           in (errno w3 = EINTR, w3))"

text \<open>
  The loop has no bound on the number of retries, so it is run with fuel: the number of
  passes it may make. \<open>Returned\<close> is the state when the loop was left; \<open>Spinning\<close> is the
  state reached when the fuel is used up and the loop would go round again.
\<close>

datatype 'a run = Returned 'a | Spinning 'a

fun jump_loop :: "nat \<Rightarrow> 'k kernel \<Rightarrow> int \<Rightarrow> int \<Rightarrow> 'k world \<Rightarrow> 'k world run" where
  "jump_loop 0 K f vt w = Spinning w"
| "jump_loop (Suc n) K f vt w =
     (case jump_body K f vt w of
        (True, w') \<Rightarrow> jump_loop n K f vt w'
      | (False, w') \<Rightarrow> Returned w')"

text \<open>The two closes after the loop.\<close>

definition jumpToVt_close :: "'k kernel \<Rightarrow> jump_vars \<Rightarrow> 'k world \<Rightarrow> 'k world" where
  "jumpToVt_close K v w =
     (let w1 = snd (sys K (Close (activeVtFd v)) w)
      in if vtFd v \<noteq> - 1 then snd (sys K (Close (vtFd v)) w1) else w1)"

text \<open>
  \<^verbatim>\<open>jumpToVt\<close> (the spec's \<^verbatim>\<open>switchTo\<close>), with the fuel of its loop: the opens, the
  handshake on the operative handle unless \<^verbatim>\<open>vt_auto\<close>, the loop, the closes.
\<close>

definition jumpToVt :: "nat \<Rightarrow> 'k kernel \<Rightarrow> int \<Rightarrow> bool \<Rightarrow> 'k world \<Rightarrow> 'k world run" where
  "jumpToVt n K vt vt_auto w =
     (let (v, w3) = jumpToVt_open K vt vt_auto w;
          w4 = (if \<not> vt_auto then snd (handleVtSwitches K (fd v) w3) else w3)
      in case jump_loop n K (fd v) vt w4 of
           Spinning s \<Rightarrow> Spinning s
         | Returned w5 \<Rightarrow> Returned (jumpToVt_close K v w5))"

section \<open>Test kernels\<close>

text \<open>
  A scripted kernel answers the calls with the replies of a list, in order, whatever the
  call; when the list is used up every call succeeds with return value 0.
\<close>

definition ok_reply :: reply where
  "ok_reply = \<lparr>r_ret = 0, r_errno = 0, r_out = NoOut\<rparr>"

definition ret_reply :: "int \<Rightarrow> reply" where
  "ret_reply v = \<lparr>r_ret = v, r_errno = 0, r_out = NoOut\<rparr>"

definition out_reply :: "outbuf \<Rightarrow> reply" where
  "out_reply b = \<lparr>r_ret = 0, r_errno = 0, r_out = b\<rparr>"

definition fail_reply :: "int \<Rightarrow> reply" where
  "fail_reply e = \<lparr>r_ret = - 1, r_errno = e, r_out = NoOut\<rparr>"

fun scripted :: "reply list kernel" where
  "scripted [] c = (ok_reply, [])"
| "scripted (r # rs) c = (r, rs)"

definition boot :: "'k \<Rightarrow> 'k world" where
  "boot k = \<lparr>kern = k, errno = 0, trace = []\<rparr>"

definition active_stat :: "16 word \<Rightarrow> vt_stat" where
  "active_stat a = zero_vt_stat\<lparr>v_active := a\<rparr>"

definition auto_mode :: vt_mode where
  "auto_mode = zero_vt_mode\<lparr>mode := VT_AUTO\<rparr>"

section \<open>Reading traces\<close>

text \<open>The events an operation added to the trace, and the calls among a list of events.\<close>

definition new_events :: "'k world \<Rightarrow> 'k world \<Rightarrow> event list" where
  "new_events w w' = drop (length (trace w)) (trace w')"

fun calls_of :: "event list \<Rightarrow> syscall list" where
  "calls_of [] = []"
| "calls_of (Call c r # es) = c # calls_of es"
| "calls_of (Log s m # es) = calls_of es"

fun logs_of :: "event list \<Rightarrow> (severity \<times> msg) list" where
  "logs_of [] = []"
| "logs_of (Call c r # es) = logs_of es"
| "logs_of (Log s m # es) = (s, m) # logs_of es"

text \<open>The state a run has reached, returned or not.\<close>

fun run_state :: "'a run \<Rightarrow> 'a" where
  "run_state (Returned s) = s"
| "run_state (Spinning s) = s"

text \<open>
  The handles that are open after a list of events, starting from the handles \<open>S\<close>: an
  \<^verbatim>\<open>open\<close> that returns a non-negative descriptor adds it, a \<^verbatim>\<open>close\<close> of an open
  handle removes it. Closing a non-negative descriptor that is not open is an error
  (\<open>None\<close>); a negative number is not a handle, and closing it changes nothing.
\<close>

fun open_handles :: "int list \<Rightarrow> event list \<Rightarrow> int list option" where
  "open_handles S [] = Some S"
| "open_handles S (Call (Open p) r # es) =
     open_handles (if 0 \<le> r_ret r then r_ret r # S else S) es"
| "open_handles S (Call (Close h) r # es) =
     (if h < 0 then open_handles S es
      else if h \<in> set S then open_handles (remove1 h S) es
      else None)"
| "open_handles S (e # es) = open_handles S es"

text \<open>The handshake of \<^verbatim>\<open>handleVtSwitches\<close>, read off a list of events.\<close>

fun is_activate :: "event \<Rightarrow> bool" where
  "is_activate (Call (Ioctl h (VT_ACTIVATE t)) r) = True"
| "is_activate e = False"

fun sets_process_mode :: "syscall \<Rightarrow> bool" where
  "sets_process_mode (Ioctl h (VT_SETMODE m)) =
     (mode m = VT_PROCESS \<and> relsig m = word_of_int RELEASE_DISPLAY_SIGNAL
      \<and> acqsig m = word_of_int ACQUIRE_DISPLAY_SIGNAL)"
| "sets_process_mode c = False"

definition handshake_installed :: "event list \<Rightarrow> bool" where
  "handshake_installed es =
     (list_ex sets_process_mode (calls_of es)
      \<and> Signal RELEASE_DISPLAY_SIGNAL onReleaseDisplay \<in> set (calls_of es)
      \<and> Signal ACQUIRE_DISPLAY_SIGNAL onAcquireDisplay \<in> set (calls_of es))"

text \<open>The calls by which \<^verbatim>\<open>fixVtMode\<close> changes anything.\<close>

fun is_repair_call :: "syscall \<Rightarrow> bool" where
  "is_repair_call (Ioctl h (KDSETMODE d)) = True"
| "is_repair_call (Ioctl h (VT_SETMODE m)) = True"
| "is_repair_call (Signal s h) = True"
| "is_repair_call c = False"

text \<open>
  The events of the retry loop on handle \<open>f\<close> for target \<open>vt\<close>.
  \<open>retried\<close>: every pass was interrupted (the activate call failed with \<^verbatim>\<open>EINTR\<close>, or it
  succeeded and the wait call failed with \<^verbatim>\<open>EINTR\<close>), and nothing was logged.
  \<open>retry_law\<close>: interrupted passes, then one last pass that was not interrupted: an activate
  failure with its warning and no wait call, or a wait call that succeeded, or a wait
  failure with its warning.
\<close>

fun retried :: "int \<Rightarrow> int \<Rightarrow> event list \<Rightarrow> bool" where
  "retried f vt [] = True"
| "retried f vt (Call c ra # es) =
     (c = Ioctl f (VT_ACTIVATE vt) \<and>
      (if r_ret ra < 0 then r_errno ra = EINTR \<and> retried f vt es
       else (case es of
               Call c' rw # es' \<Rightarrow>
                 c' = Ioctl f (VT_WAITACTIVE vt) \<and> r_ret rw < 0 \<and> r_errno rw = EINTR
                 \<and> retried f vt es'
             | _ \<Rightarrow> False)))"
| "retried f vt (Log s m # es) = False"

fun retry_law :: "int \<Rightarrow> int \<Rightarrow> event list \<Rightarrow> bool" where
  "retry_law f vt [] = False"
| "retry_law f vt (Call c ra # es) =
     (c = Ioctl f (VT_ACTIVATE vt) \<and>
      (if r_ret ra < 0 then
         (if r_errno ra = EINTR then retry_law f vt es
          else es = [Log Warning (CouldntInitiateJump vt (r_errno ra))])
       else (case es of
               Call c' rw # es' \<Rightarrow>
                 c' = Ioctl f (VT_WAITACTIVE vt) \<and>
                 (if r_ret rw < 0 then
                    (if r_errno rw = EINTR then retry_law f vt es'
                     else es' = [Log Warning (CouldntFinalizeJump vt (r_errno rw))])
                  else es' = [])
             | _ \<Rightarrow> False)))"
| "retry_law f vt (Log s m # es) = False"

text \<open>
  Modelled from the spec: the kernel's VT subsystem is not part of the repository. Sections
  3 and 6 of the spec say that the VT mode and the kernel display mode of a console are
  changed only by the respective set call and read by the respective get call. This kernel
  is one console with these two values; every call succeeds.
\<close>

record vt_console =
  c_mode :: vt_mode
  c_display :: int

fun console :: "vt_console kernel" where
  "console k (Ioctl h VT_GETMODE) = (out_reply (OutMode (c_mode k)), k)"
| "console k (Ioctl h (VT_SETMODE m)) = (ok_reply, k\<lparr>c_mode := m\<rparr>)"
| "console k (Ioctl h KDGETMODE) = (out_reply (OutInt (c_display k)), k)"
| "console k (Ioctl h (KDSETMODE d)) = (ok_reply, k\<lparr>c_display := d\<rparr>)"
| "console k c = (ok_reply, k)"

text \<open>
  For the proofs: the trace of \<open>w'\<close> is the trace of \<open>w\<close> followed by events that all
  satisfy \<open>P\<close>.
\<close>

definition grows :: "(event \<Rightarrow> bool) \<Rightarrow> 'k world \<Rightarrow> 'k world \<Rightarrow> bool" where
  "grows P w w' = (\<exists>es. trace w' = trace w @ es \<and> list_all P es)"

text \<open>For the proofs: events that neither open nor close a handle, and events that
  in addition are not an activate call.\<close>

fun no_open_close :: "event \<Rightarrow> bool" where
  "no_open_close (Call (Open p) r) = False"
| "no_open_close (Call (Close h) r) = False"
| "no_open_close e = True"

fun quiet :: "event \<Rightarrow> bool" where
  "quiet (Call (Open p) r) = False"
| "quiet (Call (Close h) r) = False"
| "quiet (Call (Ioctl h (VT_ACTIVATE t)) r) = False"
| "quiet e = True"

text \<open>
  A run used as an example below: the switch to VT 2 on a kernel that opens the master device
  as descriptor 3 and the target device as descriptor 4 and lets every call succeed.
\<close>

definition switch_script :: "reply list" where
  "switch_script = [ret_reply 3, ret_reply 4]"

definition switch_result :: "reply list world" where
  "switch_result =
     \<lparr>kern = [], errno = 0,
      trace =
        [Log Debug (JumpingToVt 2),
         Call (Open ''/dev/tty0'') (ret_reply 3),
         Call (Open ''/dev/tty2'') (ret_reply 4),
         Call (Write 4 clearEscapeSequence sizeof_pointer) ok_reply,
         Call (Ioctl 4 (KDSETMODE KD_GRAPHICS)) ok_reply,
         Call (Ioctl 3 VT_GETMODE) ok_reply,
         Call (Ioctl 3 KDGETMODE) ok_reply,
         Log Debug VtModeNotNeeded,
         Call (Ioctl 4 (VT_SETMODE setModeRequest)) ok_reply,
         Call (Signal RELEASE_DISPLAY_SIGNAL onReleaseDisplay) ok_reply,
         Call (Signal ACQUIRE_DISPLAY_SIGNAL onAcquireDisplay) ok_reply,
         Call (Ioctl 4 (VT_ACTIVATE 2)) ok_reply,
         Call (Ioctl 4 (VT_WAITACTIVE 2)) ok_reply,
         Call (Close 3) ok_reply,
         Call (Close 4) ok_reply]\<rparr>"

text \<open>
  Two runs in which the master device cannot be opened (\<^verbatim>\<open>EACCES\<close>, 13): in the first the
  target device opens as descriptor 4, in the second it cannot be opened either
  (\<^verbatim>\<open>ENOENT\<close>, 2). Calls on the descriptor \<open>-1\<close> fail with \<^verbatim>\<open>EBADF\<close> (9).
\<close>

definition no_master_script :: "reply list" where
  "no_master_script =
     [fail_reply 13, ret_reply 4, ok_reply, ok_reply, fail_reply 9, fail_reply 9,
      ok_reply, ok_reply, ok_reply, ok_reply, ok_reply, fail_reply 9, ok_reply]"

definition no_device_script :: "reply list" where
  "no_device_script =
     [fail_reply 13, fail_reply 2, fail_reply 9, ok_reply, ok_reply, fail_reply 9,
      fail_reply 9]"

text \<open>
  For stating what \<^verbatim>\<open>jumpToVt\<close> does around its loop: the local variables and the state
  with which the loop is entered (after the opens and, unless \<^verbatim>\<open>vt_auto\<close>, the handshake),
  the closes that follow the loop, and the events after loop entry divided into those of the
  loop and those of the closes.
\<close>

definition jump_handles :: "'k kernel \<Rightarrow> int \<Rightarrow> bool \<Rightarrow> 'k world \<Rightarrow> jump_vars" where
  "jump_handles K vt vt_auto w = fst (jumpToVt_open K vt vt_auto w)"

definition before_loop :: "'k kernel \<Rightarrow> int \<Rightarrow> bool \<Rightarrow> 'k world \<Rightarrow> 'k world" where
  "before_loop K vt vt_auto w =
     (let (v, w3) = jumpToVt_open K vt vt_auto w
      in if \<not> vt_auto then snd (handleVtSwitches K (fd v) w3) else w3)"

definition close_calls :: "jump_vars \<Rightarrow> syscall list" where
  "close_calls v = Close (activeVtFd v) # (if vtFd v \<noteq> - 1 then [Close (vtFd v)] else [])"

definition loop_events :: "'k kernel \<Rightarrow> int \<Rightarrow> bool \<Rightarrow> 'k world \<Rightarrow> 'k world \<Rightarrow> event list" where
  "loop_events K vt vt_auto w w' =
     (let es = new_events (before_loop K vt vt_auto w) w'
      in take (length es - length (close_calls (jump_handles K vt vt_auto w))) es)"

definition close_events :: "'k kernel \<Rightarrow> int \<Rightarrow> bool \<Rightarrow> 'k world \<Rightarrow> 'k world \<Rightarrow> event list" where
  "close_events K vt vt_auto w w' =
     (let es = new_events (before_loop K vt vt_auto w) w'
      in drop (length es - length (close_calls (jump_handles K vt vt_auto w))) es)"

text \<open>
  A run used as an example below (scenario 6 of the spec): the switch to VT 2 where the
  activate call is interrupted twice and then succeeds, and the wait call succeeds.
\<close>

definition retry_script :: "reply list" where
  "retry_script =
     [ret_reply 3, ret_reply 4, ok_reply, ok_reply, ok_reply, ok_reply, ok_reply, ok_reply,
      ok_reply, fail_reply EINTR, fail_reply EINTR]"

definition retry_result :: "reply list world" where
  "retry_result =
     \<lparr>kern = [], errno = 0,
      trace =
        [Log Debug (JumpingToVt 2),
         Call (Open ''/dev/tty0'') (ret_reply 3),
         Call (Open ''/dev/tty2'') (ret_reply 4),
         Call (Write 4 clearEscapeSequence sizeof_pointer) ok_reply,
         Call (Ioctl 4 (KDSETMODE KD_GRAPHICS)) ok_reply,
         Call (Ioctl 3 VT_GETMODE) ok_reply,
         Call (Ioctl 3 KDGETMODE) ok_reply,
         Log Debug VtModeNotNeeded,
         Call (Ioctl 4 (VT_SETMODE setModeRequest)) ok_reply,
         Call (Signal RELEASE_DISPLAY_SIGNAL onReleaseDisplay) ok_reply,
         Call (Signal ACQUIRE_DISPLAY_SIGNAL onAcquireDisplay) ok_reply,
         Call (Ioctl 4 (VT_ACTIVATE 2)) (fail_reply EINTR),
         Call (Ioctl 4 (VT_ACTIVATE 2)) (fail_reply EINTR),
         Call (Ioctl 4 (VT_ACTIVATE 2)) ok_reply,
         Call (Ioctl 4 (VT_WAITACTIVE 2)) ok_reply,
         Call (Close 3) ok_reply,
         Call (Close 4) ok_reply]\<rparr>"

section \<open>Calls and traces\<close>

lemmas reply_defs = ok_reply_def ret_reply_def out_reply_def fail_reply_def

lemmas log_defs = qDebug_def qWarning_def qCritical_def

lemma sys_eq:
  "K (kern w) c = (r, k') \<Longrightarrow>
   sys K c w = (r, w\<lparr>kern := k', errno := (if r_ret r < 0 then r_errno r else errno w),
                      trace := trace w @ [Call c r]\<rparr>)"
  by (simp add: sys_def)

lemma trace_sys: "trace (snd (sys K c w)) = trace w @ [Call c (fst (K (kern w) c))]"
  by (simp add: sys_def split_beta)

lemma trace_log:
  "trace (qDebug m w) = trace w @ [Log Debug m]"
  "trace (qWarning m w) = trace w @ [Log Warning m]"
  "trace (qCritical m w) = trace w @ [Log Critical m]"
  by (simp_all add: log_defs)

lemma kern_log:
  "kern (qDebug m w) = kern w" "kern (qWarning m w) = kern w" "kern (qCritical m w) = kern w"
  by (simp_all add: log_defs)

lemma calls_of_append: "calls_of (xs @ ys) = calls_of xs @ calls_of ys"
  by (induction xs rule: calls_of.induct) simp_all

lemma logs_of_append: "logs_of (xs @ ys) = logs_of xs @ logs_of ys"
  by (induction xs rule: logs_of.induct) simp_all

lemma growsI: "trace w' = trace w @ es \<Longrightarrow> list_all P es \<Longrightarrow> grows P w w'"
  by (auto simp: grows_def)

lemma grows_refl: "grows P w w"
  by (simp add: grows_def)

lemma grows_trans: "grows P w w' \<Longrightarrow> grows P w' w'' \<Longrightarrow> grows P w w''"
  by (auto simp: grows_def)

lemma grows_mono: "grows P w w' \<Longrightarrow> (\<And>e. P e \<Longrightarrow> Q e) \<Longrightarrow> grows Q w w'"
  by (auto simp: grows_def list_all_iff)

lemma grows_sys: "(\<And>r. P (Call c r)) \<Longrightarrow> grows P w (snd (sys K c w))"
  by (simp add: grows_def trace_sys)

lemma grows_log:
  "P (Log Debug m) \<Longrightarrow> grows P w (qDebug m w)"
  "P (Log Warning m) \<Longrightarrow> grows P w (qWarning m w)"
  "P (Log Critical m) \<Longrightarrow> grows P w (qCritical m w)"
  by (simp_all add: grows_def trace_log)

lemma grows_new_events: "grows P w w' \<Longrightarrow> trace w' = trace w @ new_events w w'"
  by (auto simp: grows_def new_events_def)

lemma grows_list_all: "grows P w w' \<Longrightarrow> list_all P (new_events w w')"
  by (auto simp: grows_def new_events_def)

lemma new_events_append:
  "grows P w w' \<Longrightarrow> grows Q w' w'' \<Longrightarrow>
   new_events w w'' = new_events w w' @ new_events w' w''"
  by (auto simp: grows_def new_events_def)

lemma new_events_eq: "trace w' = trace w @ es \<Longrightarrow> new_events w w' = es"
  by (simp add: new_events_def)

section \<open>Growth of each function\<close>

lemma grows_step:
  "grows P v w \<Longrightarrow> (\<And>r. P (Call c r)) \<Longrightarrow> grows P v (snd (sys K c w))"
  "grows P v w \<Longrightarrow> P (Log Debug m) \<Longrightarrow> grows P v (qDebug m w)"
  "grows P v w \<Longrightarrow> P (Log Warning m) \<Longrightarrow> grows P v (qWarning m w)"
  "grows P v w \<Longrightarrow> P (Log Critical m) \<Longrightarrow> grows P v (qCritical m w)"
  by (blast intro: grows_trans grows_sys grows_log)+

lemma grows_if:
  "(c \<Longrightarrow> grows P v a) \<Longrightarrow> (\<not> c \<Longrightarrow> grows P v b) \<Longrightarrow> grows P v (if c then a else b)"
  "(c \<Longrightarrow> grows P v (snd x)) \<Longrightarrow> (\<not> c \<Longrightarrow> grows P v (snd y)) \<Longrightarrow>
   grows P v (snd (if c then x else y))"
  by simp_all

lemma grows_handleVtSwitches:
  "grows quiet v w \<Longrightarrow> grows quiet v (snd (handleVtSwitches K h w))"
  unfolding handleVtSwitches_def Let_def split_beta
  by (intro grows_step grows_if conjI impI | simp)+

lemma grows_fixVtMode_out:
  "grows quiet v w \<Longrightarrow> grows quiet v (fixVtMode_out ok m w)"
  unfolding fixVtMode_out_def
  by (intro grows_step grows_if conjI impI | simp)+

lemma grows_fixVtMode:
  "grows quiet v w \<Longrightarrow> grows quiet v (fixVtMode K h a w)"
  unfolding fixVtMode_def Let_def split_beta
  by (intro grows_step grows_if grows_fixVtMode_out grows_handleVtSwitches conjI impI | simp)+


section \<open>The retry loop\<close>

lemma grows_errno: "grows P v w \<Longrightarrow> grows P v (w\<lparr>errno := e\<rparr>)"
  by (simp add: grows_def)

lemma grows_jump_body:
  "grows no_open_close v w \<Longrightarrow> grows no_open_close v (snd (jump_body K f vt w))"
  unfolding jump_body_def Let_def split_beta
  by (intro grows_step grows_if grows_errno conjI impI | simp)+

lemma grows_jump_loop:
  "grows no_open_close v w \<Longrightarrow> grows no_open_close v (run_state (jump_loop n K f vt w))"
proof (induction n arbitrary: w)
  case 0
  then show ?case by simp
next
  case (Suc n)
  obtain b w' where body: "jump_body K f vt w = (b, w')"
    by fastforce
  from Suc.prems have "grows no_open_close v w'"
    using grows_jump_body [of v w K f vt] body by simp
  with Suc.IH [of w'] body show ?case
    by (cases b) simp_all
qed

lemma jump_body_eq:
  assumes "K (kern w) (Ioctl f (VT_ACTIVATE vt)) = (ra, k1)"
    and "K k1 (Ioctl f (VT_WAITACTIVE vt)) = (rw, k2)"
  shows "jump_body K f vt w =
     (if r_ret ra < 0 then
        (if r_errno ra = EINTR
         then (True, w\<lparr>kern := k1, errno := EINTR,
                        trace := trace w @ [Call (Ioctl f (VT_ACTIVATE vt)) ra]\<rparr>)
         else (False, w\<lparr>kern := k1, errno := r_errno ra,
                         trace := trace w @ [Call (Ioctl f (VT_ACTIVATE vt)) ra,
                                             Log Warning (CouldntInitiateJump vt (r_errno ra))]\<rparr>))
      else if r_ret rw < 0 then
        (if r_errno rw = EINTR
         then (True, w\<lparr>kern := k2, errno := EINTR,
                        trace := trace w @ [Call (Ioctl f (VT_ACTIVATE vt)) ra,
                                            Call (Ioctl f (VT_WAITACTIVE vt)) rw]\<rparr>)
         else (False, w\<lparr>kern := k2, errno := r_errno rw,
                         trace := trace w @ [Call (Ioctl f (VT_ACTIVATE vt)) ra,
                                             Call (Ioctl f (VT_WAITACTIVE vt)) rw,
                                             Log Warning (CouldntFinalizeJump vt (r_errno rw))]\<rparr>))
      else (False, w\<lparr>kern := k2, errno := 0,
                      trace := trace w @ [Call (Ioctl f (VT_ACTIVATE vt)) ra,
                                          Call (Ioctl f (VT_WAITACTIVE vt)) rw]\<rparr>))"
  using assms by (simp add: jump_body_def sys_eq log_defs EINTR_def)

text \<open>One pass, read off the events it adds.\<close>

lemma jump_body_again:
  assumes "jump_body K f vt w = (True, w')"
  shows "retried f vt (new_events w w' @ es) = retried f vt es"
    and "retry_law f vt (new_events w w' @ es) = retry_law f vt es"
    and "count_list (calls_of (new_events w w')) (Ioctl f (VT_ACTIVATE vt)) = 1"
proof -
  obtain ra k1 where a: "K (kern w) (Ioctl f (VT_ACTIVATE vt)) = (ra, k1)"
    by fastforce
  obtain rw k2 where b: "K k1 (Ioctl f (VT_WAITACTIVE vt)) = (rw, k2)"
    by fastforce
  from assms have
    "(r_ret ra < 0 \<and> r_errno ra = EINTR
        \<and> new_events w w' = [Call (Ioctl f (VT_ACTIVATE vt)) ra])
     \<or> (0 \<le> r_ret ra \<and> r_ret rw < 0 \<and> r_errno rw = EINTR
        \<and> new_events w w' = [Call (Ioctl f (VT_ACTIVATE vt)) ra,
                               Call (Ioctl f (VT_WAITACTIVE vt)) rw])"
    unfolding jump_body_eq [OF a b] by (auto simp: new_events_def split: if_splits)
  then show "retried f vt (new_events w w' @ es) = retried f vt es"
    and "retry_law f vt (new_events w w' @ es) = retry_law f vt es"
    and "count_list (calls_of (new_events w w')) (Ioctl f (VT_ACTIVATE vt)) = 1"
    by auto
qed

lemma jump_body_done:
  assumes "jump_body K f vt w = (False, w')"
  shows "retry_law f vt (new_events w w')"
    and "count_list (calls_of (new_events w w')) (Ioctl f (VT_ACTIVATE vt)) = 1"
proof -
  obtain ra k1 where a: "K (kern w) (Ioctl f (VT_ACTIVATE vt)) = (ra, k1)"
    by fastforce
  obtain rw k2 where b: "K k1 (Ioctl f (VT_WAITACTIVE vt)) = (rw, k2)"
    by fastforce
  from assms show "retry_law f vt (new_events w w')"
    and "count_list (calls_of (new_events w w')) (Ioctl f (VT_ACTIVATE vt)) = 1"
    unfolding jump_body_eq [OF a b] by (auto simp: new_events_def split: if_splits)
qed

lemma jump_body_new_events:
  assumes "jump_body K f vt w = (b, w')" and "grows P w' w''"
  shows "new_events w w'' = new_events w w' @ new_events w' w''"
proof -
  have "grows no_open_close w w'"
    using grows_jump_body [OF grows_refl, of w K f vt] assms(1) by simp
  then show ?thesis
    using assms(2) by (rule new_events_append)
qed

lemma jump_loop_shape:
  "(jump_loop n K f vt w = Returned w' \<longrightarrow>
      retry_law f vt (new_events w w')
      \<and> count_list (calls_of (new_events w w')) (Ioctl f (VT_ACTIVATE vt)) \<le> n)
   \<and> (jump_loop n K f vt w = Spinning w' \<longrightarrow>
      retried f vt (new_events w w')
      \<and> count_list (calls_of (new_events w w')) (Ioctl f (VT_ACTIVATE vt)) = n)"
proof (induction n arbitrary: w)
  case 0
  show ?case by (auto simp: new_events_def)
next
  case (Suc n)
  obtain b w1 where body: "jump_body K f vt w = (b, w1)"
    by fastforce
  show ?case
  proof (cases b)
    case False
    with body jump_body_done [of K f vt w w1] show ?thesis
      by auto
  next
    case True
    have loop: "jump_loop (Suc n) K f vt w = jump_loop n K f vt w1"
      using body True by simp
    have tail: "grows no_open_close w1 (run_state (jump_loop n K f vt w1))"
      by (rule grows_jump_loop [OF grows_refl])
    have split: "jump_loop n K f vt w1 = Returned w' \<or> jump_loop n K f vt w1 = Spinning w' \<Longrightarrow>
        new_events w w' = new_events w w1 @ new_events w1 w'"
      using jump_body_new_events [OF body, of no_open_close w'] tail by auto
    from body True have again:
      "\<And>es. retried f vt (new_events w w1 @ es) = retried f vt es"
      "\<And>es. retry_law f vt (new_events w w1 @ es) = retry_law f vt es"
      "count_list (calls_of (new_events w w1)) (Ioctl f (VT_ACTIVATE vt)) = 1"
      using jump_body_again [of K f vt w w1] by simp_all
    show ?thesis
      using Suc.IH [of w1] split again unfolding loop
      by (auto simp: calls_of_append)
  qed
qed


text \<open>
  More fuel does not change a result, and against a scripted kernel the loop is left once
  the fuel exceeds the length of the script.
\<close>

lemma jump_loop_fuel:
  "jump_loop n K f vt w = Returned w' \<Longrightarrow> jump_loop (n + m) K f vt w = Returned w'"
proof (induction n arbitrary: w)
  case 0
  then show ?case by simp
next
  case (Suc n)
  obtain b w1 where body: "jump_body K f vt w = (b, w1)"
    by fastforce
  with Suc show ?case
    by (cases b) simp_all
qed

lemma jump_body_scripted:
  assumes "jump_body scripted f vt w = (True, w')"
  shows "length (kern w') < length (kern w)"
proof (cases "kern w")
  case Nil
  then have "scripted (kern w) (Ioctl f (VT_ACTIVATE vt)) = (ok_reply, [])"
    and "scripted [] (Ioctl f (VT_WAITACTIVE vt)) = (ok_reply, [])"
    by simp_all
  from jump_body_eq [OF this] assms show ?thesis
    by (simp add: ok_reply_def)
next
  case (Cons r rs)
  then have a: "scripted (kern w) (Ioctl f (VT_ACTIVATE vt)) = (r, rs)"
    by simp
  obtain rw k2 where b: "scripted rs (Ioctl f (VT_WAITACTIVE vt)) = (rw, k2)"
    by fastforce
  then have "length k2 \<le> length rs"
    by (cases rs) auto
  with jump_body_eq [OF a b] assms Cons show ?thesis
    by (auto split: if_splits)
qed

lemma jump_loop_scripted_returns:
  "length (kern w) < n \<Longrightarrow> \<exists>w'. jump_loop n scripted f vt w = Returned w'"
proof (induction n arbitrary: w)
  case 0
  then show ?case by simp
next
  case (Suc n)
  obtain b w1 where body: "jump_body scripted f vt w = (b, w1)"
    by fastforce
  show ?case
  proof (cases b)
    case False
    with body show ?thesis by simp
  next
    case True
    with body have "length (kern w1) < length (kern w)"
      using jump_body_scripted [of f vt w w1] by simp
    with Suc.prems have "length (kern w1) < n"
      by simp
    from Suc.IH [OF this] body True show ?thesis
      by simp
  qed
qed


section \<open>The switch as a whole\<close>

lemma fst_sys: "fst (sys K c w) = fst (K (kern w) c)"
  by (simp add: sys_def split_beta)

lemma kern_sys: "kern (snd (sys K c w)) = snd (K (kern w) c)"
  by (simp add: sys_def split_beta)

lemma jumpToVt_open_shape:
  assumes "K (kern w) (Open ''/dev/tty0'') = (ra, k1)"
    and "K k1 (Open (''/dev/tty'' @ show_int vt)) = (rv, k2)"
  shows "\<exists>w2. trace w2 = trace w @ [Log Debug (JumpingToVt vt), Call (Open ''/dev/tty0'') ra,
                                    Call (Open (''/dev/tty'' @ show_int vt)) rv]
           \<and> grows quiet w2 (snd (jumpToVt_open K vt a w))"
    and "fst (jumpToVt_open K vt a w) =
           \<lparr>activeVtFd = r_ret ra, vtFd = r_ret rv,
            fd = (if r_ret rv \<noteq> - 1 then r_ret rv else r_ret ra)\<rparr>"
proof -
  let ?w2 = "snd (sys K (Open (''/dev/tty'' @ show_int vt))
               (snd (sys K (Open ''/dev/tty0'') (qDebug (JumpingToVt vt) w))))"
  have "trace ?w2 = trace w @ [Log Debug (JumpingToVt vt), Call (Open ''/dev/tty0'') ra,
                               Call (Open (''/dev/tty'' @ show_int vt)) rv]"
    using assms by (simp add: trace_sys trace_log kern_sys kern_log)
  moreover have "grows quiet ?w2 (snd (jumpToVt_open K vt a w))"
    unfolding jumpToVt_open_def Let_def split_beta
    by (intro grows_step grows_if grows_fixVtMode grows_refl conjI impI | simp)+
  ultimately show "\<exists>w2. trace w2 = trace w @ [Log Debug (JumpingToVt vt),
        Call (Open ''/dev/tty0'') ra, Call (Open (''/dev/tty'' @ show_int vt)) rv]
      \<and> grows quiet w2 (snd (jumpToVt_open K vt a w))"
    by blast
  show "fst (jumpToVt_open K vt a w) =
           \<lparr>activeVtFd = r_ret ra, vtFd = r_ret rv,
            fd = (if r_ret rv \<noteq> - 1 then r_ret rv else r_ret ra)\<rparr>"
    using assms by (simp add: jumpToVt_open_def Let_def split_beta fst_sys kern_sys kern_log)
qed

lemma handleVtSwitches_installs:
  "handshake_installed (new_events w (snd (handleVtSwitches K h w)))"
  by (simp add: handleVtSwitches_def Let_def split_beta new_events_def trace_sys trace_log
      handshake_installed_def setModeRequest_def zero_vt_mode_def)

lemma handshake_installed_mono:
  "handshake_installed es \<Longrightarrow> handshake_installed (xs @ es @ ys)"
  by (auto simp: handshake_installed_def calls_of_append)

lemma quiet_not_activate: "quiet e \<Longrightarrow> \<not> is_activate e"
  by (cases e rule: quiet.cases) simp_all

lemma quiet_no_open_close: "quiet e \<Longrightarrow> no_open_close e"
  by (cases e rule: quiet.cases) simp_all

lemma before_activate:
  assumes "list_all (\<lambda>e. \<not> is_activate e) A" and "handshake_installed A"
    and "i < length (A @ B)" and "is_activate ((A @ B) ! i)"
  shows "handshake_installed (take i (A @ B))"
proof -
  have "length A \<le> i"
  proof (rule ccontr)
    assume "\<not> length A \<le> i"
    then have "i < length A" by simp
    with assms(1) have "\<not> is_activate (A ! i)"
      by (simp add: list_all_length)
    with \<open>i < length A\<close> assms(4) show False
      by (simp add: nth_append)
  qed
  then have "take i (A @ B) = [] @ A @ take (i - length A) B"
    by simp
  with handshake_installed_mono [OF assms(2)] show ?thesis
    by metis
qed

lemma grows_close:
  "grows no_open_close v w \<Longrightarrow> grows (\<lambda>e. True) v (jumpToVt_close K x w)"
  unfolding jumpToVt_close_def Let_def
  by (intro grows_step grows_if conjI impI | simp | erule grows_mono)+

text \<open>
  Claim C1. In \<^verbatim>\<open>jumpToVt\<close> with \<^verbatim>\<open>vt_auto\<close> false, for every target, every kernel
  and whether or not the loop has been left yet: before each activate call among the events
  of the operation, the mode-set call with mode \<^verbatim>\<open>VT_PROCESS\<close> and the two signal numbers
  and both handler registrations have been made.
\<close>

theorem jumpToVt_handshake_first:
  assumes "i < length (new_events w (run_state (jumpToVt n K vt False w)))"
    and "is_activate (new_events w (run_state (jumpToVt n K vt False w)) ! i)"
  shows "handshake_installed (take i (new_events w (run_state (jumpToVt n K vt False w))))"
proof -
  obtain ra k1 where a: "K (kern w) (Open ''/dev/tty0'') = (ra, k1)"
    by fastforce
  obtain rv k2 where b: "K k1 (Open (''/dev/tty'' @ show_int vt)) = (rv, k2)"
    by fastforce
  obtain v w3 where op: "jumpToVt_open K vt False w = (v, w3)"
    by fastforce
  define w4 where "w4 = snd (handleVtSwitches K (fd v) w3)"
  define wf where "wf = run_state (jumpToVt n K vt False w)"
  from jumpToVt_open_shape(1) [OF a b, of False] op obtain w2
    where w2: "trace w2 = trace w @ [Log Debug (JumpingToVt vt), Call (Open ''/dev/tty0'') ra,
                                    Call (Open (''/dev/tty'' @ show_int vt)) rv]"
      and g23: "grows quiet w2 w3"
    by auto
  have g02: "grows (\<lambda>e. \<not> is_activate e) w w2"
    by (simp add: grows_def w2)
  have g34: "grows quiet w3 w4"
    unfolding w4_def by (rule grows_handleVtSwitches [OF grows_refl])
  have g03: "grows (\<lambda>e. \<not> is_activate e) w w3"
    by (rule grows_trans [OF g02 grows_mono [OF g23 quiet_not_activate]])
  have g04: "grows (\<lambda>e. \<not> is_activate e) w w4"
    by (rule grows_trans [OF g03 grows_mono [OF g34 quiet_not_activate]])
  have hs: "handshake_installed (new_events w w4)"
    using handleVtSwitches_installs [of w3 K "fd v"]
      handshake_installed_mono [of "new_events w3 w4" "new_events w w3" "[]"]
      new_events_append [OF g03 g34]
    by (simp add: w4_def)
  have loop: "grows no_open_close w4 (run_state (jump_loop n K (fd v) vt w4))"
    by (rule grows_jump_loop [OF grows_refl])
  have wf: "wf = (case jump_loop n K (fd v) vt w4 of
                    Spinning s \<Rightarrow> s | Returned w5 \<Rightarrow> jumpToVt_close K v w5)"
    by (simp add: wf_def jumpToVt_def op w4_def split: run.splits)
  have g4f: "grows (\<lambda>e. True) w4 wf"
  proof (cases "jump_loop n K (fd v) vt w4")
    case (Returned w5)
    with loop wf show ?thesis
      by (simp add: grows_close)
  next
    case (Spinning s)
    with loop wf show ?thesis
      by (auto intro: grows_mono)
  qed
  have "new_events w wf = new_events w w4 @ new_events w4 wf"
    by (rule new_events_append [OF g04 g4f])
  with before_activate [OF grows_list_all [OF g04] hs, of i "new_events w4 wf"] assms
  show ?thesis
    by (simp add: wf_def)
qed


text \<open>
  A scripted kernel never gets a longer script, so \<^verbatim>\<open>jumpToVt\<close> returns against it once
  the fuel exceeds the length of the script.
\<close>

lemma shorter_sys:
  "length (kern w) \<le> m \<Longrightarrow> length (kern (snd (sys scripted c w))) \<le> m"
  by (cases "kern w") (simp_all add: sys_def)

lemma shorter_log:
  "length (kern w) \<le> m \<Longrightarrow> length (kern (qDebug x w)) \<le> m"
  "length (kern w) \<le> m \<Longrightarrow> length (kern (qWarning x w)) \<le> m"
  "length (kern w) \<le> m \<Longrightarrow> length (kern (qCritical x w)) \<le> m"
  by (simp_all add: log_defs)

lemmas shorter_step = shorter_sys shorter_log

lemma shorter_if:
  "(c \<Longrightarrow> length (kern a) \<le> m) \<Longrightarrow> (\<not> c \<Longrightarrow> length (kern b) \<le> m) \<Longrightarrow>
   length (kern (if c then a else b)) \<le> m"
  "(c \<Longrightarrow> length (kern (snd x)) \<le> m) \<Longrightarrow> (\<not> c \<Longrightarrow> length (kern (snd y)) \<le> m) \<Longrightarrow>
   length (kern (snd (if c then x else y))) \<le> m"
  by simp_all

lemma shorter_handleVtSwitches:
  "length (kern w) \<le> m \<Longrightarrow> length (kern (snd (handleVtSwitches scripted h w))) \<le> m"
  unfolding handleVtSwitches_def Let_def split_beta
  by (intro shorter_step shorter_if conjI impI | simp)+

lemma shorter_fixVtMode_out:
  "length (kern w) \<le> m \<Longrightarrow> length (kern (fixVtMode_out ok b w)) \<le> m"
  unfolding fixVtMode_out_def
  by (intro shorter_step shorter_if conjI impI | simp)+

lemma shorter_fixVtMode:
  "length (kern w) \<le> m \<Longrightarrow> length (kern (fixVtMode scripted h a w)) \<le> m"
  unfolding fixVtMode_def Let_def split_beta
  by (intro shorter_step shorter_if shorter_fixVtMode_out shorter_handleVtSwitches conjI impI
      | simp)+

lemma shorter_jumpToVt_open:
  "length (kern w) \<le> m \<Longrightarrow> length (kern (snd (jumpToVt_open scripted vt a w))) \<le> m"
  unfolding jumpToVt_open_def Let_def split_beta
  by (intro shorter_step shorter_if shorter_fixVtMode conjI impI | simp)+

lemma jumpToVt_scripted_returns:
  assumes "length (kern w) < n"
  shows "\<exists>w'. jumpToVt n scripted vt a w = Returned w'"
proof -
  obtain v w3 where op: "jumpToVt_open scripted vt a w = (v, w3)"
    by fastforce
  define w4 where "w4 = (if \<not> a then snd (handleVtSwitches scripted (fd v) w3) else w3)"
  have "length (kern w3) \<le> length (kern w)"
    using shorter_jumpToVt_open [of w "length (kern w)" vt a] op by simp
  then have "length (kern w4) \<le> length (kern w)"
    by (simp add: w4_def shorter_handleVtSwitches)
  with assms have "length (kern w4) < n"
    by simp
  from jump_loop_scripted_returns [OF this, of "fd v" vt] obtain w5
    where "jump_loop n scripted (fd v) vt w4 = Returned w5"
    by blast
  then show ?thesis
    by (simp add: jumpToVt_def op w4_def)
qed

section \<open>The retry law of the switch\<close>


lemma split_tail:
  "es = xs @ ys \<Longrightarrow> length ys = c \<Longrightarrow>
   take (length es - c) es = xs \<and> drop (length es - c) es = ys"
  by simp

lemma before_loop_grows:
  "grows (\<lambda>e. \<not> is_activate e) w (before_loop K vt a w)"
proof -
  obtain ra k1 where a: "K (kern w) (Open ''/dev/tty0'') = (ra, k1)"
    by fastforce
  obtain rv k2 where b: "K k1 (Open (''/dev/tty'' @ show_int vt)) = (rv, k2)"
    by fastforce
  obtain v w3 where op: "jumpToVt_open K vt a w = (v, w3)"
    by fastforce
  from jumpToVt_open_shape(1) [OF a b, of a] op obtain w2
    where w2: "trace w2 = trace w @ [Log Debug (JumpingToVt vt), Call (Open ''/dev/tty0'') ra,
                                    Call (Open (''/dev/tty'' @ show_int vt)) rv]"
      and g23: "grows quiet w2 w3"
    by auto
  have g02: "grows (\<lambda>e. \<not> is_activate e) w w2"
    by (simp add: grows_def w2)
  have g03: "grows (\<lambda>e. \<not> is_activate e) w w3"
    by (rule grows_trans [OF g02 grows_mono [OF g23 quiet_not_activate]])
  have g34: "grows quiet w3 (snd (handleVtSwitches K (fd v) w3))"
    by (rule grows_handleVtSwitches [OF grows_refl])
  have g04: "grows (\<lambda>e. \<not> is_activate e) w (snd (handleVtSwitches K (fd v) w3))"
    by (rule grows_trans [OF g03 grows_mono [OF g34 quiet_not_activate]])
  from g03 g04 show ?thesis
    by (simp add: before_loop_def op)
qed

lemma jumpToVt_close_events:
  "\<exists>cs. trace (jumpToVt_close K v w) = trace w @ cs \<and> calls_of cs = close_calls v
        \<and> logs_of cs = [] \<and> length cs = length (close_calls v)"
  by (simp add: jumpToVt_close_def close_calls_def trace_sys Let_def)

lemma jumpToVt_returned:
  assumes "jumpToVt n K vt a w = Returned w'"
  shows "new_events w w' = new_events w (before_loop K vt a w) @ new_events (before_loop K vt a w) w'"
    and "retry_law (fd (jump_handles K vt a w)) vt (loop_events K vt a w w')"
    and "count_list (calls_of (loop_events K vt a w w'))
           (Ioctl (fd (jump_handles K vt a w)) (VT_ACTIVATE vt)) \<le> n"
    and "calls_of (close_events K vt a w w') = close_calls (jump_handles K vt a w)"
    and "logs_of (close_events K vt a w w') = []"
proof -
  obtain v w3 where op: "jumpToVt_open K vt a w = (v, w3)"
    by fastforce
  define w4 where "w4 = before_loop K vt a w"
  have w4: "w4 = (if \<not> a then snd (handleVtSwitches K (fd v) w3) else w3)"
    by (simp add: w4_def before_loop_def op)
  have v: "jump_handles K vt a w = v"
    by (simp add: jump_handles_def op)
  from assms obtain w5 where loop: "jump_loop n K (fd v) vt w4 = Returned w5"
    and w': "w' = jumpToVt_close K v w5"
    by (auto simp: jumpToVt_def op w4 split: run.splits)
  have g45: "grows no_open_close w4 w5"
    using grows_jump_loop [OF grows_refl, of w4 n K "fd v" vt] loop by simp
  obtain cs where cs: "trace w' = trace w5 @ cs" "calls_of cs = close_calls v"
    "logs_of cs = []" "length cs = length (close_calls v)"
    using jumpToVt_close_events [of K v w5] w' by auto
  have g5': "grows (\<lambda>e. True) w5 w'"
    using cs(1) by (simp add: grows_def list_all_iff)
  have es: "new_events w4 w' = new_events w4 w5 @ cs"
    using new_events_append [OF g45 g5'] cs(1) by (simp add: new_events_def)
  have parts: "loop_events K vt a w w' = new_events w4 w5" "close_events K vt a w w' = cs"
    using split_tail [OF es cs(4)]
    by (simp_all add: loop_events_def close_events_def w4_def [symmetric] v Let_def)
  have g04: "grows (\<lambda>e. \<not> is_activate e) w w4"
    unfolding w4_def by (rule before_loop_grows)
  have g4': "grows (\<lambda>e. True) w4 w'"
    by (rule grows_trans [OF grows_mono [OF g45] g5']) simp
  show "new_events w w' = new_events w (before_loop K vt a w) @ new_events (before_loop K vt a w) w'"
    using new_events_append [OF g04 g4'] by (simp add: w4_def)
  from jump_loop_shape [of n K "fd v" vt w4 w5] loop
  show "retry_law (fd (jump_handles K vt a w)) vt (loop_events K vt a w w')"
    and "count_list (calls_of (loop_events K vt a w w'))
           (Ioctl (fd (jump_handles K vt a w)) (VT_ACTIVATE vt)) \<le> n"
    by (simp_all add: parts v)
  show "calls_of (close_events K vt a w w') = close_calls (jump_handles K vt a w)"
    and "logs_of (close_events K vt a w w') = []"
    by (simp_all add: parts v cs)
qed

lemma jumpToVt_spinning:
  assumes "jumpToVt n K vt a w = Spinning w'"
  shows "new_events w w' = new_events w (before_loop K vt a w) @ new_events (before_loop K vt a w) w'"
    and "retried (fd (jump_handles K vt a w)) vt (new_events (before_loop K vt a w) w')"
    and "count_list (calls_of (new_events (before_loop K vt a w) w'))
           (Ioctl (fd (jump_handles K vt a w)) (VT_ACTIVATE vt)) = n"
proof -
  obtain v w3 where op: "jumpToVt_open K vt a w = (v, w3)"
    by fastforce
  define w4 where "w4 = before_loop K vt a w"
  have w4: "w4 = (if \<not> a then snd (handleVtSwitches K (fd v) w3) else w3)"
    by (simp add: w4_def before_loop_def op)
  have v: "jump_handles K vt a w = v"
    by (simp add: jump_handles_def op)
  from assms have loop: "jump_loop n K (fd v) vt w4 = Spinning w'"
    by (auto simp: jumpToVt_def op w4 split: run.splits)
  have g4': "grows no_open_close w4 w'"
    using grows_jump_loop [OF grows_refl, of w4 n K "fd v" vt] loop by simp
  have g04: "grows (\<lambda>e. \<not> is_activate e) w w4"
    unfolding w4_def by (rule before_loop_grows)
  show "new_events w w' = new_events w (before_loop K vt a w) @ new_events (before_loop K vt a w) w'"
    using new_events_append [OF g04 g4'] by (simp add: w4_def)
  from jump_loop_shape [of n K "fd v" vt w4 w'] loop
  show "retried (fd (jump_handles K vt a w)) vt (new_events (before_loop K vt a w) w')"
    and "count_list (calls_of (new_events (before_loop K vt a w) w'))
           (Ioctl (fd (jump_handles K vt a w)) (VT_ACTIVATE vt)) = n"
    by (simp_all add: w4_def [symmetric] v)
qed

text \<open>
  Claim C5. \<^verbatim>\<open>jumpToVt\<close>, for every kernel, target, flag and fuel. Its operative handle
  is the target descriptor when the target device opened and the master descriptor
  otherwise, and no activate call is made before the loop is entered. When
  \<^verbatim>\<open>jumpToVt\<close> has returned, its events are those up to loop entry, then the events of
  the loop, then the closes. The events of the loop are: passes in which the activate call,
  or else the wait call, failed with \<^verbatim>\<open>EINTR\<close>, each followed by a new activate call on
  the operative handle for the same target and by no log line; then one pass that was not
  interrupted, which is an activate failure with its warning and no wait call, or a wait
  call that succeeded, or a wait failure with its warning. While \<^verbatim>\<open>jumpToVt\<close> has not
  returned, every pass so far was interrupted, one pass per unit of fuel. Against a kernel
  that answers from a finite list of replies \<^verbatim>\<open>jumpToVt\<close> returns once the fuel exceeds
  the length of the list. The function returns no value, and the closes are the only events
  after the loop, so no error reaches the caller.
\<close>

theorem jumpToVt_retry_law:
  assumes "K (kern w) (Open ''/dev/tty0'') = (ra, k1)"
    and "K k1 (Open (''/dev/tty'' @ show_int vt)) = (rv, k2)"
  shows "jump_handles K vt a w =
           \<lparr>activeVtFd = r_ret ra, vtFd = r_ret rv,
            fd = (if r_ret rv \<noteq> - 1 then r_ret rv else r_ret ra)\<rparr>
         \<and> list_all (\<lambda>e. \<not> is_activate e) (new_events w (before_loop K vt a w))
         \<and> (jumpToVt n K vt a w = Returned w' \<longrightarrow>
              new_events w w' =
                new_events w (before_loop K vt a w) @ new_events (before_loop K vt a w) w'
              \<and> retry_law (fd (jump_handles K vt a w)) vt (loop_events K vt a w w')
              \<and> count_list (calls_of (loop_events K vt a w w'))
                   (Ioctl (fd (jump_handles K vt a w)) (VT_ACTIVATE vt)) \<le> n
              \<and> calls_of (close_events K vt a w w') = close_calls (jump_handles K vt a w)
              \<and> logs_of (close_events K vt a w w') = [])
         \<and> (jumpToVt n K vt a w = Spinning w' \<longrightarrow>
              new_events w w' =
                new_events w (before_loop K vt a w) @ new_events (before_loop K vt a w) w'
              \<and> retried (fd (jump_handles K vt a w)) vt (new_events (before_loop K vt a w) w')
              \<and> count_list (calls_of (new_events (before_loop K vt a w) w'))
                   (Ioctl (fd (jump_handles K vt a w)) (VT_ACTIVATE vt)) = n)
         \<and> (length (kern ws) < n \<longrightarrow> (\<exists>ws'. jumpToVt n scripted vt a ws = Returned ws'))"
  using jumpToVt_open_shape(2) [OF assms, of a] grows_list_all [OF before_loop_grows, of w K vt a]
    jumpToVt_returned [of n K vt a w w'] jumpToVt_spinning [of n K vt a w w']
    jumpToVt_scripted_returns [of ws n vt a]
  by (simp add: jump_handles_def)


section \<open>Handles\<close>

lemma open_handles_append:
  "open_handles S (xs @ ys) =
     (case open_handles S xs of None \<Rightarrow> None | Some T \<Rightarrow> open_handles T ys)"
  by (induction S xs rule: open_handles.induct) simp_all

lemma open_handles_skip: "list_all no_open_close es \<Longrightarrow> open_handles S es = Some S"
  by (induction S es rule: open_handles.induct) simp_all

lemma open_handles_grows:
  "grows no_open_close w w' \<Longrightarrow> open_handles S (trace w) = Some T \<Longrightarrow>
   open_handles S (trace w') = Some T"
  by (auto simp: grows_def open_handles_append open_handles_skip)

lemma fetchAvailableVt_handles:
  "open_handles S (trace w) = Some T \<Longrightarrow>
   open_handles S (trace (snd (fetchAvailableVt K w))) = Some T"
  by (simp add: fetchAvailableVt_def sys_def log_defs Let_def split_beta open_handles_append)

lemma setUpNewVt_handles:
  "open_handles S (trace w) = Some T \<Longrightarrow>
   open_handles S (trace (snd (setUpNewVt K w))) = Some T"
  by (simp add: setUpNewVt_def sys_def log_defs Let_def split_beta open_handles_append)

lemma jumpToVt_handles:
  assumes "open_handles S (trace w) = Some T" and "jumpToVt n K vt a w = Returned w'"
  shows "open_handles S (trace w') = Some T"
proof -
  obtain ra k1 where a: "K (kern w) (Open ''/dev/tty0'') = (ra, k1)"
    by fastforce
  obtain rv k2 where b: "K k1 (Open (''/dev/tty'' @ show_int vt)) = (rv, k2)"
    by fastforce
  obtain v w3 where op: "jumpToVt_open K vt a w = (v, w3)"
    by fastforce
  define w4 where "w4 = (if \<not> a then snd (handleVtSwitches K (fd v) w3) else w3)"
  from jumpToVt_open_shape [OF a b, of a] op obtain w2
    where w2: "trace w2 = trace w @ [Log Debug (JumpingToVt vt), Call (Open ''/dev/tty0'') ra,
                                    Call (Open (''/dev/tty'' @ show_int vt)) rv]"
      and g23: "grows quiet w2 w3"
      and v: "activeVtFd v = r_ret ra" "vtFd v = r_ret rv"
    by auto
  have g34: "grows quiet w3 w4"
    unfolding w4_def by (simp add: grows_refl grows_handleVtSwitches)
  from assms(2) obtain w5 where loop: "jump_loop n K (fd v) vt w4 = Returned w5"
    and w': "w' = jumpToVt_close K v w5"
    by (auto simp: jumpToVt_def op w4_def split: run.splits)
  have g45: "grows no_open_close w4 w5"
    using grows_jump_loop [OF grows_refl, of w4 n K "fd v" vt] loop by simp
  have g25: "grows no_open_close w2 w5"
    by (rule grows_trans [OF grows_trans [OF grows_mono [OF g23 quiet_no_open_close]
          grows_mono [OF g34 quiet_no_open_close]] g45])
  have at2: "open_handles S (trace w2) =
      Some ((if 0 \<le> r_ret rv then [r_ret rv] else []) @
            (if 0 \<le> r_ret ra then [r_ret ra] else []) @ T)"
    using assms(1) by (simp add: w2 open_handles_append)
  have at5: "open_handles S (trace w5) =
      Some ((if 0 \<le> r_ret rv then [r_ret rv] else []) @
            (if 0 \<le> r_ret ra then [r_ret ra] else []) @ T)"
    by (rule open_handles_grows [OF g25 at2])
  show ?thesis
    using at5 grows_new_events [OF grows_refl, of w5]
    by (simp add: w' jumpToVt_close_def v trace_sys open_handles_append Let_def)
qed

text \<open>
  Claim C8. Whatever handles were open before, the same handles are open after
  \<^verbatim>\<open>fetchAvailableVt\<close>, after \<^verbatim>\<open>setUpNewVt\<close> and after \<^verbatim>\<open>jumpToVt\<close> when it
  returns, and no handle was closed that was not open: each descriptor these operations
  opened has been closed once.
\<close>

theorem handles_closed:
  assumes "open_handles S (trace w) = Some T"
  shows "open_handles S (trace (snd (fetchAvailableVt K w))) = Some T
         \<and> open_handles S (trace (snd (setUpNewVt K w))) = Some T
         \<and> (jumpToVt n K vt a w = Returned w' \<longrightarrow> open_handles S (trace w') = Some T)"
  using assms fetchAvailableVt_handles setUpNewVt_handles jumpToVt_handles
  by blast


section \<open>Discovery and allocation: results\<close>

text \<open>
  Claim C6. Once the master device is open, \<^verbatim>\<open>fetchAvailableVt\<close> does not return on a
  failed VT-state query: it logs it, goes on to the allocation request and returns the
  allocated id; it takes the error return, with its log line and the result \<open>-1\<close>, when
  and only when the allocation call fails as well. When the VT-state query succeeds it
  returns the active VT and makes no allocation call: the calls are the open, the query and
  the close.
\<close>

theorem fetchAvailableVt_falls_through:
  assumes "K (kern w) (Open ''/dev/tty0'') = (ro, k1)" and "0 \<le> r_ret ro"
    and "K k1 (Ioctl (r_ret ro) VT_GETSTATE) = (rs, k2)"
    and "K k2 (Ioctl (r_ret ro) VT_OPENQRY) = (rq, k3)"
  shows "(r_ret rs < 0 \<longrightarrow>
            fst (fetchAvailableVt K w) = (if r_ret rq < 0 then - 1 else int_after 0 rq) \<and>
            calls_of (new_events w (snd (fetchAvailableVt K w))) =
              [Open ''/dev/tty0'', Ioctl (r_ret ro) VT_GETSTATE, Ioctl (r_ret ro) VT_OPENQRY,
               Close (r_ret ro)] \<and>
            logs_of (new_events w (snd (fetchAvailableVt K w))) =
              (Critical, FailedGetCurrentVt (r_errno rs)) #
              (if r_ret rq < 0 then [(Critical, FailedOpenNewVt (r_errno rq))] else [])) \<and>
         (0 \<le> r_ret rs \<longrightarrow>
            fst (fetchAvailableVt K w) = uint (v_active (stat_after zero_vt_stat rs)) \<and>
            calls_of (new_events w (snd (fetchAvailableVt K w))) =
              [Open ''/dev/tty0'', Ioctl (r_ret ro) VT_GETSTATE, Close (r_ret ro)])"
  using assms
  by (simp add: fetchAvailableVt_def sys_def qCritical_def new_events_def Let_def split_beta)

text \<open>Scenario 2 of the spec: the query fails, the allocation yields 5.\<close>

theorem fetchAvailableVt_falls_through_witness:
  "fst (fetchAvailableVt scripted (boot [ret_reply 3, fail_reply 5, out_reply (OutInt 5)])) = 5
   \<and> calls_of (new_events (boot [ret_reply 3, fail_reply 5, out_reply (OutInt 5)])
        (snd (fetchAvailableVt scripted (boot [ret_reply 3, fail_reply 5, out_reply (OutInt 5)]))))
     = [Open ''/dev/tty0'', Ioctl 3 VT_GETSTATE, Ioctl 3 VT_OPENQRY, Close 3]"
  using fetchAvailableVt_falls_through [of scripted
      "boot [ret_reply 3, fail_reply 5, out_reply (OutInt 5)]"
      "ret_reply 3" "[fail_reply 5, out_reply (OutInt 5)]"
      "fail_reply 5" "[out_reply (OutInt 5)]" "out_reply (OutInt 5)" "[]"]
  by (simp add: boot_def reply_defs int_after_def)

text \<open>
  Claim C7. When the allocation call of \<^verbatim>\<open>setUpNewVt\<close> succeeds with an id that is not
  positive, the active VT is queried, and when that query succeeds its answer is returned.
  The only log line is a warning, and the close follows as on every other path.
\<close>

theorem setUpNewVt_falls_back:
  assumes "K (kern w) (Open ''/dev/tty0'') = (ro, k1)" and "0 \<le> r_ret ro"
    and "K k1 (Ioctl (r_ret ro) VT_OPENQRY) = (rq, k2)"
    and "0 \<le> r_ret rq" and "int_after 0 rq \<le> 0"
    and "K k2 (Ioctl (r_ret ro) VT_GETSTATE) = (rs, k3)"
    and "0 \<le> r_ret rs"
  shows "fst (setUpNewVt K w) = uint (v_active (stat_after zero_vt_stat rs))
         \<and> calls_of (new_events w (snd (setUpNewVt K w))) =
             [Open ''/dev/tty0'', Ioctl (r_ret ro) VT_OPENQRY, Ioctl (r_ret ro) VT_GETSTATE,
              Close (r_ret ro)]
         \<and> logs_of (new_events w (snd (setUpNewVt K w))) =
             [(Warning,
               NewVtNotValid (int_after 0 rq) (uint (v_active (stat_after zero_vt_stat rs))))]"
  using assms
  by (simp add: setUpNewVt_def sys_def log_defs new_events_def Let_def split_beta)

text \<open>Scenario 3 of the spec: the allocation yields 0, the active VT is 2.\<close>

theorem setUpNewVt_falls_back_witness:
  "fst (setUpNewVt scripted
          (boot [ret_reply 3, out_reply (OutInt 0), out_reply (OutStat (active_stat 2))])) = 2
   \<and> logs_of (new_events
          (boot [ret_reply 3, out_reply (OutInt 0), out_reply (OutStat (active_stat 2))])
          (snd (setUpNewVt scripted
            (boot [ret_reply 3, out_reply (OutInt 0), out_reply (OutStat (active_stat 2))]))))
     = [(Warning, NewVtNotValid 0 2)]"
  using setUpNewVt_falls_back [of scripted
      "boot [ret_reply 3, out_reply (OutInt 0), out_reply (OutStat (active_stat 2))]"
      "ret_reply 3" "[out_reply (OutInt 0), out_reply (OutStat (active_stat 2))]"
      "out_reply (OutInt 0)" "[out_reply (OutStat (active_stat 2))]"
      "out_reply (OutStat (active_stat 2))" "[]"]
  by (simp add: boot_def reply_defs int_after_def stat_after_def active_stat_def
      zero_vt_stat_def)

text \<open>
  Claim C10. When the VT-state query fails and the allocation call succeeds,
  \<^verbatim>\<open>fetchAvailableVt\<close> returns the id the kernel stored, whatever it is, and the only call
  after the allocation is the close: the id is not compared with 0 and the active VT is not
  queried again. With the id 0 the caller receives 0.
\<close>

theorem fetchAvailableVt_returns_allocation_unchecked:
  assumes "K (kern w) (Open ''/dev/tty0'') = (ro, k1)" and "0 \<le> r_ret ro"
    and "K k1 (Ioctl (r_ret ro) VT_GETSTATE) = (rs, k2)" and "r_ret rs < 0"
    and "K k2 (Ioctl (r_ret ro) VT_OPENQRY) = (rq, k3)" and "0 \<le> r_ret rq"
    and "r_out rq = OutInt v"
  shows "fst (fetchAvailableVt K w) = v
         \<and> calls_of (new_events w (snd (fetchAvailableVt K w))) =
             [Open ''/dev/tty0'', Ioctl (r_ret ro) VT_GETSTATE, Ioctl (r_ret ro) VT_OPENQRY,
              Close (r_ret ro)]"
  using assms
  by (simp add: fetchAvailableVt_def sys_def log_defs new_events_def Let_def split_beta
      int_after_def)

theorem fetchAvailableVt_returns_allocation_unchecked_witness:
  "fst (fetchAvailableVt scripted (boot [ret_reply 3, fail_reply 5, out_reply (OutInt 0)])) = 0
   \<and> calls_of (new_events (boot [ret_reply 3, fail_reply 5, out_reply (OutInt 0)])
        (snd (fetchAvailableVt scripted (boot [ret_reply 3, fail_reply 5, out_reply (OutInt 0)]))))
     = [Open ''/dev/tty0'', Ioctl 3 VT_GETSTATE, Ioctl 3 VT_OPENQRY, Close 3]"
  using fetchAvailableVt_returns_allocation_unchecked [of scripted
      "boot [ret_reply 3, fail_reply 5, out_reply (OutInt 0)]"
      "ret_reply 3" "[fail_reply 5, out_reply (OutInt 0)]"
      "fail_reply 5" "[out_reply (OutInt 0)]" "out_reply (OutInt 0)" "[]" 0]
  by (simp add: boot_def reply_defs)

section \<open>Mode repair: results\<close>




text \<open>
  Claim C4, as the code has it. When the VT-mode query fails, \<^verbatim>\<open>fixVtMode\<close> logs a warning
  as its next event, on every path, and goes on to the test of the reply buffer. A buffer the
  call left untouched reads \<^verbatim>\<open>VT_AUTO\<close>. If the buffer reads another mode, the only
  further event is the critical log line of the failed fix. If it reads \<^verbatim>\<open>VT_AUTO\<close>, the
  display-mode query is the next event, with its own warning when it fails; when the display
  mode then reads \<^verbatim>\<open>KD_TEXT\<close> there is no further call and the failed fix is logged; when
  it reads another value and \<^verbatim>\<open>vt_auto\<close> holds, the display mode is set to text and the
  failed fix is logged; when it reads another value and \<^verbatim>\<open>vt_auto\<close> does not hold, the
  calls of the handshake are made and one log line follows. The function is total: it always
  hands control back to its caller.
\<close>

theorem fixVtMode_query_failure:
  assumes "K (kern w) (Ioctl h VT_GETMODE) = (rm, k1)" and "r_ret rm < 0"
    and "K k1 (Ioctl h KDGETMODE) = (rd, k2)"
    and "K k2 (Ioctl h (KDSETMODE KD_TEXT)) = (rt, k3)"
    and "K k2 (Ioctl h (VT_SETMODE setModeRequest)) = (rs, k4)"
    and "K k4 (Signal RELEASE_DISPLAY_SIGNAL onReleaseDisplay) = (r1, k5)"
    and "K k5 (Signal ACQUIRE_DISPLAY_SIGNAL onAcquireDisplay) = (r2, k6)"
  shows "(r_out rm = NoOut \<longrightarrow> mode (mode_after zero_vt_mode rm) = VT_AUTO)
         \<and> (mode (mode_after zero_vt_mode rm) \<noteq> VT_AUTO \<longrightarrow>
              new_events w (fixVtMode K h a w) =
                [Call (Ioctl h VT_GETMODE) rm, Log Warning (FailedQueryVtMode (r_errno rm)),
                 Log Critical FailedSetUpVtMode])
         \<and> (mode (mode_after zero_vt_mode rm) = VT_AUTO \<and> int_after 0 rd = KD_TEXT \<longrightarrow>
              new_events w (fixVtMode K h a w) =
                [Call (Ioctl h VT_GETMODE) rm, Log Warning (FailedQueryVtMode (r_errno rm)),
                 Call (Ioctl h KDGETMODE) rd]
                @ (if r_ret rd < 0 then [Log Warning (FailedQueryDisplayMode (r_errno rd))]
                   else [])
                @ [Log Critical FailedSetUpVtMode])
         \<and> (mode (mode_after zero_vt_mode rm) = VT_AUTO \<and> int_after 0 rd \<noteq> KD_TEXT \<and> a \<longrightarrow>
              new_events w (fixVtMode K h a w) =
                [Call (Ioctl h VT_GETMODE) rm, Log Warning (FailedQueryVtMode (r_errno rm)),
                 Call (Ioctl h KDGETMODE) rd]
                @ (if r_ret rd < 0 then [Log Warning (FailedQueryDisplayMode (r_errno rd))]
                   else [])
                @ [Call (Ioctl h (KDSETMODE KD_TEXT)) rt]
                @ (if r_ret rt < 0 then [Log Warning (FailedSetTextMode (r_errno rt))] else [])
                @ [Log Critical FailedSetUpVtMode])
         \<and> (mode (mode_after zero_vt_mode rm) = VT_AUTO \<and> int_after 0 rd \<noteq> KD_TEXT \<and> \<not> a \<longrightarrow>
              (\<exists>s m. new_events w (fixVtMode K h a w) =
                [Call (Ioctl h VT_GETMODE) rm, Log Warning (FailedQueryVtMode (r_errno rm)),
                 Call (Ioctl h KDGETMODE) rd]
                @ (if r_ret rd < 0 then [Log Warning (FailedQueryDisplayMode (r_errno rd))]
                   else [])
                @ [Call (Ioctl h (VT_SETMODE setModeRequest)) rs]
                @ (if r_ret rs < 0 then [Log Debug (FailedManageVtManually (r_errno rs))]
                   else [])
                @ [Call (Signal RELEASE_DISPLAY_SIGNAL onReleaseDisplay) r1,
                   Call (Signal ACQUIRE_DISPLAY_SIGNAL onAcquireDisplay) r2,
                   Log s m]))"
proof -
  have untouched: "r_out rm = NoOut \<longrightarrow> mode (mode_after zero_vt_mode rm) = VT_AUTO"
    by (simp add: mode_after_def zero_vt_mode_def VT_AUTO_def)
  have direct: "mode (mode_after zero_vt_mode rm) \<noteq> VT_AUTO \<longrightarrow>
              new_events w (fixVtMode K h a w) =
                [Call (Ioctl h VT_GETMODE) rm, Log Warning (FailedQueryVtMode (r_errno rm)),
                 Log Critical FailedSetUpVtMode]"
    using assms(1,2)
    by (simp add: fixVtMode_def fixVtMode_out_def sys_eq log_defs new_events_def Let_def)
  have text_mode: "mode (mode_after zero_vt_mode rm) = VT_AUTO \<and> int_after 0 rd = KD_TEXT \<longrightarrow>
              new_events w (fixVtMode K h a w) =
                [Call (Ioctl h VT_GETMODE) rm, Log Warning (FailedQueryVtMode (r_errno rm)),
                 Call (Ioctl h KDGETMODE) rd]
                @ (if r_ret rd < 0 then [Log Warning (FailedQueryDisplayMode (r_errno rd))]
                   else [])
                @ [Log Critical FailedSetUpVtMode]"
    using assms(1-3)
    by (simp add: fixVtMode_def fixVtMode_out_def sys_eq log_defs new_events_def Let_def)
  have escape: "mode (mode_after zero_vt_mode rm) = VT_AUTO \<and> int_after 0 rd \<noteq> KD_TEXT \<and> a \<longrightarrow>
              new_events w (fixVtMode K h a w) =
                [Call (Ioctl h VT_GETMODE) rm, Log Warning (FailedQueryVtMode (r_errno rm)),
                 Call (Ioctl h KDGETMODE) rd]
                @ (if r_ret rd < 0 then [Log Warning (FailedQueryDisplayMode (r_errno rd))]
                   else [])
                @ [Call (Ioctl h (KDSETMODE KD_TEXT)) rt]
                @ (if r_ret rt < 0 then [Log Warning (FailedSetTextMode (r_errno rt))] else [])
                @ [Log Critical FailedSetUpVtMode]"
    using assms(1-4)
    by (simp add: fixVtMode_def fixVtMode_out_def sys_eq log_defs new_events_def Let_def)
  have handshake: "mode (mode_after zero_vt_mode rm) = VT_AUTO \<and> int_after 0 rd \<noteq> KD_TEXT \<and> \<not> a \<longrightarrow>
              (\<exists>s m. new_events w (fixVtMode K h a w) =
                [Call (Ioctl h VT_GETMODE) rm, Log Warning (FailedQueryVtMode (r_errno rm)),
                 Call (Ioctl h KDGETMODE) rd]
                @ (if r_ret rd < 0 then [Log Warning (FailedQueryDisplayMode (r_errno rd))]
                   else [])
                @ [Call (Ioctl h (VT_SETMODE setModeRequest)) rs]
                @ (if r_ret rs < 0 then [Log Debug (FailedManageVtManually (r_errno rs))]
                   else [])
                @ [Call (Signal RELEASE_DISPLAY_SIGNAL onReleaseDisplay) r1,
                   Call (Signal ACQUIRE_DISPLAY_SIGNAL onAcquireDisplay) r2,
                   Log s m])"
    using assms(1-3,5-7)
    by (simp add: fixVtMode_def fixVtMode_out_def handleVtSwitches_def sys_eq log_defs
        new_events_def Let_def)
  from untouched direct text_mode escape handshake show ?thesis
    by (intro conjI)
qed

theorem fixVtMode_query_failure_witness:
  "new_events (boot [fail_reply 9, fail_reply 9])
            (fixVtMode scripted (- 1) False (boot [fail_reply 9, fail_reply 9]))
     = [Call (Ioctl (- 1) VT_GETMODE) (fail_reply 9), Log Warning (FailedQueryVtMode 9),
        Call (Ioctl (- 1) KDGETMODE) (fail_reply 9), Log Warning (FailedQueryDisplayMode 9),
        Log Critical FailedSetUpVtMode]"
  using fixVtMode_query_failure [of scripted "boot [fail_reply 9, fail_reply 9]" "- 1"
      "fail_reply 9" "[fail_reply 9]" "fail_reply 9" "[]" ok_reply "[]" ok_reply "[]"
      ok_reply "[]" ok_reply "[]" False]
  by (simp add: boot_def reply_defs mode_after_def int_after_def zero_vt_mode_def
      VT_AUTO_def KD_TEXT_def)

text \<open>
  The claim as stated fails on a handle whose every call fails: after the failed VT-mode
  query the display-mode query is made.
\<close>

theorem fixVtMode_query_failure_counterexample:
  "r_ret (fail_reply 9) < 0
   \<and> calls_of (new_events (boot [fail_reply 9, fail_reply 9])
        (fixVtMode scripted (- 1) False (boot [fail_reply 9, fail_reply 9])))
     = [Ioctl (- 1) VT_GETMODE, Ioctl (- 1) KDGETMODE]"
  by (simp add: fixVtMode_def fixVtMode_out_def sys_def log_defs new_events_def Let_def
      split_beta boot_def reply_defs mode_after_def int_after_def
      zero_vt_mode_def VT_AUTO_def KD_TEXT_def)

text \<open>
  For every kernel: when both queries succeed and report a VT mode other than \<^verbatim>\<open>VT_AUTO\<close>,
  or the display mode \<^verbatim>\<open>KD_TEXT\<close>, \<^verbatim>\<open>fixVtMode\<close> makes no repair call and logs that
  nothing needed fixing.
\<close>

lemma fixVtMode_noop_when_consistent:
  assumes "K (kern w) (Ioctl h VT_GETMODE) = (rm, k1)" and "0 \<le> r_ret rm"
    and "K k1 (Ioctl h KDGETMODE) = (rd, k2)" and "0 \<le> r_ret rd"
    and "mode (mode_after zero_vt_mode rm) \<noteq> VT_AUTO \<or> int_after 0 rd = KD_TEXT"
  shows "\<not> list_ex is_repair_call (calls_of (new_events w (fixVtMode K h b w)))
         \<and> logs_of (new_events w (fixVtMode K h b w)) = [(Debug, VtModeNotNeeded)]"
  using assms
  by (auto simp: fixVtMode_def fixVtMode_out_def sys_eq log_defs new_events_def Let_def)

text \<open>
  Claim C9. On a console that is in \<^verbatim>\<open>VT_AUTO\<close> with \<^verbatim>\<open>KD_GRAPHICS\<close>, a first
  \<^verbatim>\<open>fixVtMode\<close> makes a repair call, by whichever strategy its flag selects, and a second
  \<^verbatim>\<open>fixVtMode\<close> on the same handle, with either flag, makes no repair call and logs that
  nothing needed fixing.
\<close>

theorem fixVtMode_idempotent:
  assumes "mode (c_mode (kern w)) = VT_AUTO" and "c_display (kern w) = KD_GRAPHICS"
  shows "list_ex is_repair_call (calls_of (new_events w (fixVtMode console h a w)))
         \<and> \<not> list_ex is_repair_call
               (calls_of (new_events (fixVtMode console h a w)
                  (fixVtMode console h b (fixVtMode console h a w))))
         \<and> logs_of (new_events (fixVtMode console h a w)
              (fixVtMode console h b (fixVtMode console h a w))) = [(Debug, VtModeNotNeeded)]"
  using assms
  by (cases a)
    (simp_all add: fixVtMode_def fixVtMode_out_def handleVtSwitches_def sys_def log_defs
      new_events_def Let_def split_beta reply_defs mode_after_def int_after_def
      setModeRequest_def zero_vt_mode_def VT_AUTO_def VT_PROCESS_def KD_TEXT_def KD_GRAPHICS_def)

theorem fixVtMode_idempotent_witness:
  "logs_of (new_events
     (fixVtMode console 3 False (boot \<lparr>c_mode = auto_mode, c_display = KD_GRAPHICS\<rparr>))
     (fixVtMode console 3 False
       (fixVtMode console 3 False (boot \<lparr>c_mode = auto_mode, c_display = KD_GRAPHICS\<rparr>))))
   = [(Debug, VtModeNotNeeded)]"
  using fixVtMode_idempotent [of "boot \<lparr>c_mode = auto_mode, c_display = KD_GRAPHICS\<rparr>"
      3 False False]
  by (simp add: boot_def auto_mode_def)


section \<open>The switch: examples\<close>

lemma show_int_2: "show_int 2 = ''2''"
  by code_simp

lemma trace_boot: "trace (boot k) = []"
  by (simp add: boot_def)

lemma jumpToVt_switch_script:
  "jumpToVt (Suc 0) scripted 2 False (boot switch_script) = Returned switch_result"
  by (simp add: jumpToVt_def jumpToVt_open_def jumpToVt_close_def jump_body_def
      fixVtMode_def fixVtMode_out_def handleVtSwitches_def sys_def log_defs boot_def
      reply_defs show_int_2 mode_after_def int_after_def zero_vt_mode_def VT_AUTO_def
      KD_TEXT_def EINTR_def switch_script_def switch_result_def)

theorem jumpToVt_handshake_first_witness:
  "is_activate (new_events (boot switch_script)
       (run_state (jumpToVt (Suc 0) scripted 2 False (boot switch_script))) ! 11)
   \<and> handshake_installed (take 11 (new_events (boot switch_script)
       (run_state (jumpToVt (Suc 0) scripted 2 False (boot switch_script)))))"
  using jumpToVt_handshake_first [of 11 "boot switch_script" "Suc 0" scripted 2]
  by (simp add: jumpToVt_switch_script new_events_def trace_boot switch_result_def)

theorem handles_closed_witness:
  "open_handles [] (trace (snd (fetchAvailableVt scripted (boot switch_script)))) = Some []
   \<and> open_handles [] (trace (snd (setUpNewVt scripted (boot switch_script)))) = Some []
   \<and> open_handles [] (trace switch_result) = Some []"
  using handles_closed [of "[]" "boot switch_script" "[]" scripted "Suc 0" 2 False
      switch_result]
  by (simp add: jumpToVt_switch_script trace_boot)

text \<open>Scenario 6 of the spec, run through \<^verbatim>\<open>jumpToVt\<close>.\<close>

lemma jumpToVt_retry_script:
  "jumpToVt 3 scripted 2 False (boot retry_script) = Returned retry_result"
  by code_simp

lemma loop_events_retry_script:
  "loop_events scripted 2 False (boot retry_script) retry_result =
     [Call (Ioctl 4 (VT_ACTIVATE 2)) (fail_reply EINTR),
      Call (Ioctl 4 (VT_ACTIVATE 2)) (fail_reply EINTR),
      Call (Ioctl 4 (VT_ACTIVATE 2)) ok_reply,
      Call (Ioctl 4 (VT_WAITACTIVE 2)) ok_reply]"
  by code_simp

theorem jumpToVt_retry_law_witness:
  "jumpToVt 3 scripted 2 False (boot retry_script) = Returned retry_result
   \<and> loop_events scripted 2 False (boot retry_script) retry_result =
       [Call (Ioctl 4 (VT_ACTIVATE 2)) (fail_reply EINTR),
        Call (Ioctl 4 (VT_ACTIVATE 2)) (fail_reply EINTR),
        Call (Ioctl 4 (VT_ACTIVATE 2)) ok_reply,
        Call (Ioctl 4 (VT_WAITACTIVE 2)) ok_reply]
   \<and> retry_law 4 2 (loop_events scripted 2 False (boot retry_script) retry_result)
   \<and> calls_of (close_events scripted 2 False (boot retry_script) retry_result) =
       [Close 3, Close 4]"
proof -
  have a: "scripted (kern (boot retry_script)) (Open ''/dev/tty0'') =
      (ret_reply 3, tl retry_script)"
    by (simp add: boot_def retry_script_def)
  have b: "scripted (tl retry_script) (Open (''/dev/tty'' @ show_int 2)) =
      (ret_reply 4, tl (tl retry_script))"
    by (simp add: retry_script_def)
  note law = jumpToVt_retry_law [OF a b, of False 3 retry_result "boot retry_script"]
  have ret: "jumpToVt 3 scripted 2 False (boot retry_script) = Returned retry_result"
    by (rule jumpToVt_retry_script)
  from law have handles: "jump_handles scripted 2 False (boot retry_script) =
      \<lparr>activeVtFd = 3, vtFd = 4, fd = 4\<rparr>"
    by (simp add: ret_reply_def)
  from law ret have
    "retry_law (fd (jump_handles scripted 2 False (boot retry_script))) 2
       (loop_events scripted 2 False (boot retry_script) retry_result)"
    and "calls_of (close_events scripted 2 False (boot retry_script) retry_result) =
       close_calls (jump_handles scripted 2 False (boot retry_script))"
    by blast+
  then have "retry_law 4 2 (loop_events scripted 2 False (boot retry_script) retry_result)"
    and "calls_of (close_events scripted 2 False (boot retry_script) retry_result) =
       [Close 3, Close 4]"
    unfolding handles by (simp_all add: close_calls_def)
  with ret loop_events_retry_script show ?thesis
    by (intro conjI)
qed

text \<open>
  Claim C2, at a failing input. When \<^verbatim>\<open>/dev/tty0\<close> cannot be opened, \<^verbatim>\<open>jumpToVt\<close> goes
  on with the descriptor \<open>-1\<close>: if the target device opens, \<^verbatim>\<open>fixVtMode\<close> makes its two
  queries on \<open>-1\<close>; if the target device cannot be opened either, the handshake and the
  activate call are issued on \<open>-1\<close>. In both runs \<^verbatim>\<open>close(-1)\<close> is called. The other two
  operations test the descriptor and return \<open>-1\<close> without a further call.
\<close>

theorem jumpToVt_master_open_unchecked:
  "calls_of (trace (run_state (jumpToVt (Suc 0) scripted 2 False (boot no_master_script)))) =
     [Open ''/dev/tty0'', Open ''/dev/tty2'',
      Write 4 clearEscapeSequence sizeof_pointer, Ioctl 4 (KDSETMODE KD_GRAPHICS),
      Ioctl (- 1) VT_GETMODE, Ioctl (- 1) KDGETMODE,
      Ioctl 4 (VT_SETMODE setModeRequest),
      Signal RELEASE_DISPLAY_SIGNAL onReleaseDisplay,
      Signal ACQUIRE_DISPLAY_SIGNAL onAcquireDisplay,
      Ioctl 4 (VT_ACTIVATE 2), Ioctl 4 (VT_WAITACTIVE 2), Close (- 1), Close 4]
   \<and> calls_of (trace (run_state (jumpToVt (Suc 0) scripted 2 False (boot no_device_script)))) =
     [Open ''/dev/tty0'', Open ''/dev/tty2'',
      Ioctl (- 1) (VT_SETMODE setModeRequest),
      Signal RELEASE_DISPLAY_SIGNAL onReleaseDisplay,
      Signal ACQUIRE_DISPLAY_SIGNAL onAcquireDisplay,
      Ioctl (- 1) (VT_ACTIVATE 2), Close (- 1)]
   \<and> calls_of (trace (snd (fetchAvailableVt scripted (boot no_master_script)))) =
     [Open ''/dev/tty0'']
   \<and> calls_of (trace (snd (setUpNewVt scripted (boot no_master_script)))) =
     [Open ''/dev/tty0'']"
  by (simp add: jumpToVt_def jumpToVt_open_def jumpToVt_close_def jump_body_def
      fixVtMode_def fixVtMode_out_def handleVtSwitches_def fetchAvailableVt_def setUpNewVt_def
      sys_def log_defs boot_def
      reply_defs show_int_2 mode_after_def int_after_def zero_vt_mode_def VT_AUTO_def
      KD_TEXT_def EINTR_def no_master_script_def no_device_script_def Let_def)

end
